theory Spec2Isabelle
  imports Main "HOL-Library.Word" "HOL-Library.Sublist"
begin

unbundle bit_operations_syntax

text \<open>
  The thumbnail editor: the display normalizer of the image reference, the change text of
  the two templates, the download filename, the readiness wait and the export
  (\<open>downloadThumbnail\<close>) with its inlining step and its two capture strategies. What the
  browser does is a parameter; strings are JavaScript's.
\<close>

section \<open>JavaScript strings\<close>

text \<open>
  A JavaScript string is a sequence of 16-bit code units. Literals of the source are
  written \<open>str ''...''\<close>; all of them are ASCII.
\<close>

type_synonym jsstring = "16 word list"

definition str :: "string \<Rightarrow> jsstring" where
  "str s = map (\<lambda>c. of_nat (of_char c)) s"

text \<open>
  \<open>String.prototype.trim\<close> removes the code units of WhiteSpace and LineTerminator from
  both ends: TAB, LF, VT, FF, CR, SP, NBSP, U+1680, U+2000..U+200A, U+2028, U+2029, U+202F,
  U+205F, U+3000 and U+FEFF.
\<close>

definition isWhiteSpace :: "16 word \<Rightarrow> bool" where
  "isWhiteSpace c =
     (c = 0x9 \<or> c = 0xA \<or> c = 0xB \<or> c = 0xC \<or> c = 0xD \<or> c = 0x20 \<or> c = 0xA0 \<or>
      c = 0x1680 \<or> (0x2000 \<le> c \<and> c \<le> 0x200A) \<or> c = 0x2028 \<or> c = 0x2029 \<or>
      c = 0x202F \<or> c = 0x205F \<or> c = 0x3000 \<or> c = 0xFEFF)"

definition trim :: "jsstring \<Rightarrow> jsstring" where
  "trim s = rev (dropWhile isWhiteSpace (rev (dropWhile isWhiteSpace s)))"

text \<open>\<open>s.startsWith(p)\<close> is \<open>prefix p s\<close>; \<open>s.includes(n)\<close> searches every position.\<close>

fun includes_str :: "jsstring \<Rightarrow> jsstring \<Rightarrow> bool" where
  "includes_str [] n = (n = [])"
| "includes_str (c # cs) n = (prefix n (c # cs) \<or> includes_str cs n)"

section \<open>Selectors of the editor\<close>

datatype TrendDirection = Up | Down

datatype TemplateVariant = Classic | Impact

datatype ExportFormat = Png | Jpeg

text \<open>The selectors are string literal types; a template literal interpolates the string.\<close>

fun TrendDirection_str :: "TrendDirection \<Rightarrow> jsstring" where
  "TrendDirection_str Up = str ''up''"
| "TrendDirection_str Down = str ''down''"

fun TemplateVariant_str :: "TemplateVariant \<Rightarrow> jsstring" where
  "TemplateVariant_str Classic = str ''classic''"
| "TemplateVariant_str Impact = str ''impact''"

fun ExportFormat_str :: "ExportFormat \<Rightarrow> jsstring" where
  "ExportFormat_str Png = str ''png''"
| "ExportFormat_str Jpeg = str ''jpeg''"

section \<open>The download filename\<close>

definition formatFilename :: "TrendDirection \<Rightarrow> ExportFormat \<Rightarrow> TemplateVariant \<Rightarrow> jsstring" where
  "formatFilename trend format template =
     str ''pokemon-thumbnail-'' @ TemplateVariant_str template @ str ''-'' @
     TrendDirection_str trend @ str ''.'' @
     (if format = Jpeg then str ''jpg'' else str ''png'')"

text \<open>
  The editor in \<open>src/app/components/ThumbnailEditor.tsx\<close> has neither a template nor a format
  selector: it renders the classic template to PNG, without inlining and without a
  fallback, and names the file after the trend alone.
\<close>

definition legacy_download_filename :: "TrendDirection \<Rightarrow> jsstring" where
  "legacy_download_filename trend =
     str ''pokemon-thumbnail-'' @ TrendDirection_str trend @ str ''.png''"

section \<open>The change text of the two templates\<close>

text \<open>\<open>s.replace(/^[+-]/, '')\<close>: one sign at the very start is removed.\<close>

fun replace_leading_sign :: "jsstring \<Rightarrow> jsstring" where
  "replace_leading_sign [] = []"
| "replace_leading_sign (c # cs) = (if c = 0x2B \<or> c = 0x2D then cs else c # cs)"

text \<open>\<open>s.replace(/%/g, '')\<close>: every percent character is removed.\<close>

fun replace_all_percent :: "jsstring \<Rightarrow> jsstring" where
  "replace_all_percent [] = []"
| "replace_all_percent (c # cs) =
     (if c = 0x25 then replace_all_percent cs else c # replace_all_percent cs)"

text \<open>
  Both components take optional props; a prop left out takes the default of the
  component's parameter list. \<open>x || '0'\<close> is \<open>'0'\<close> exactly when \<open>x\<close> is the empty string.
\<close>

definition YoutubeThumbnail_changeText ::
  "jsstring option \<Rightarrow> TrendDirection option \<Rightarrow> jsstring" where
  "YoutubeThumbnail_changeText changePercentProp trendProp =
     (let changePercent = (case changePercentProp of None \<Rightarrow> str ''375'' | Some v \<Rightarrow> v);
          trend = (case trendProp of None \<Rightarrow> Up | Some t \<Rightarrow> t);
          replaced = replace_all_percent (replace_leading_sign (trim changePercent));
          normalizedChange = (if replaced = [] then str ''0'' else replaced)
      in (if trend = Down then str ''-'' else str ''+'') @ normalizedChange @ str ''%'')"

definition YoutubeThumbnailImpact_changeText ::
  "jsstring option \<Rightarrow> TrendDirection option \<Rightarrow> jsstring" where
  "YoutubeThumbnailImpact_changeText changePercentProp trendProp =
     (let changePercent = (case changePercentProp of None \<Rightarrow> str ''362'' | Some v \<Rightarrow> v);
          trend = (case trendProp of None \<Rightarrow> Up | Some t \<Rightarrow> t);
          replaced = replace_all_percent (replace_leading_sign (trim changePercent));
          normalizedChange = (if replaced = [] then str ''0'' else replaced)
      in (if trend = Down then str ''-'' else str ''+'') @ normalizedChange @ str ''%'')"

text \<open>
  The wording of the specification, for comparison: the input with a leading sign and the
  percent suffix (the run of percent characters at its end) stripped, re-prefixed by the
  trend's sign and suffixed with a percent character.
\<close>

definition spec_stripped :: "jsstring \<Rightarrow> jsstring" where
  "spec_stripped s = rev (dropWhile (\<lambda>c. c = 0x25) (rev (replace_leading_sign s)))"

definition spec_changeText :: "jsstring \<Rightarrow> TrendDirection \<Rightarrow> jsstring" where
  "spec_changeText s trend =
     (case trend of Up \<Rightarrow> str ''+'' | Down \<Rightarrow> str ''-'') @ spec_stripped s @ str ''%''"

section \<open>Errors\<close>

text \<open>
  A thrown value (or the reason of a rejected promise) is an instance of \<open>Error\<close> with its
  message (\<open>TypeError\<close>, \<open>URIError\<close> and \<open>DOMException\<close> are), a string, or any other
  value.
\<close>

datatype js_error = JsError jsstring | ThrownString jsstring | ThrownValue

text \<open>The message of the \<open>URIError\<close> of \<open>encodeURIComponent\<close> is the engine's own; V8's is used.\<close>

definition URIError_message :: jsstring where
  "URIError_message = str ''URI malformed''"

section \<open>Image references\<close>

definition isDataUrl :: "jsstring \<Rightarrow> bool" where
  "isDataUrl value = (prefix (str ''data:'') value \<or> prefix (str ''blob:'') value)"

text \<open>
  \<open>/^https?:\/\//i\<close>: the pattern is anchored at the start and ignores case. Without the
  \<open>u\<close> flag a code unit above 127 never matches an ASCII letter, so only the ASCII letters
  are folded. \<open>match_ci p s\<close> matches the literal \<open>p\<close> at the start of \<open>s\<close> and returns the
  rest; \<open>match_scheme\<close> is the whole pattern, the optional \<open>s\<close> tried first.
\<close>

definition canonicalize :: "16 word \<Rightarrow> 16 word" where
  "canonicalize c = (if 0x61 \<le> c \<and> c \<le> 0x7A then c - 0x20 else c)"

fun match_ci :: "jsstring \<Rightarrow> jsstring \<Rightarrow> jsstring option" where
  "match_ci [] s = Some s"
| "match_ci (p # ps) [] = None"
| "match_ci (p # ps) (c # cs) =
     (if canonicalize c = canonicalize p then match_ci ps cs else None)"

definition match_scheme :: "jsstring \<Rightarrow> jsstring option" where
  "match_scheme value =
     (case match_ci (str ''http'') value of
        None \<Rightarrow> None
      | Some r \<Rightarrow>
          (case match_ci (str ''s'') r of
             None \<Rightarrow> match_ci (str ''://'') r
           | Some r' \<Rightarrow>
               (case match_ci (str ''://'') r' of
                  None \<Rightarrow> match_ci (str ''://'') r
                | Some rest \<Rightarrow> Some rest)))"

definition isRemoteUrl :: "jsstring \<Rightarrow> bool" where
  "isRemoteUrl value = (match_scheme value \<noteq> None)"

definition isProxyUrl :: "jsstring \<Rightarrow> bool" where
  "isProxyUrl value =
     (includes_str value (str ''images.weserv.nl/?url='') \<or>
      includes_str value (str ''wsrv.nl/?url=''))"

text \<open>
  \<open>encodeURIComponent\<close> (ECMA-262, Encode): letters, digits and \<open>-_.!~*'()\<close> stay; every other
  code point is written as the percent escapes of its UTF-8 octets; a surrogate without its
  partner raises \<open>URIError\<close>.
\<close>

definition uriUnescaped :: "16 word \<Rightarrow> bool" where
  "uriUnescaped c =
     ((0x41 \<le> c \<and> c \<le> 0x5A) \<or> (0x61 \<le> c \<and> c \<le> 0x7A) \<or> (0x30 \<le> c \<and> c \<le> 0x39) \<or>
      c = 0x2D \<or> c = 0x5F \<or> c = 0x2E \<or> c = 0x21 \<or> c = 0x7E \<or> c = 0x2A \<or>
      c = 0x27 \<or> c = 0x28 \<or> c = 0x29)"

definition isLeadSurrogate :: "16 word \<Rightarrow> bool" where
  "isLeadSurrogate c = (0xD800 \<le> c \<and> c \<le> 0xDBFF)"

definition isTrailSurrogate :: "16 word \<Rightarrow> bool" where
  "isTrailSurrogate c = (0xDC00 \<le> c \<and> c \<le> 0xDFFF)"

definition utf8 :: "nat \<Rightarrow> nat list" where
  "utf8 cp =
     (if cp < 0x80 then [cp]
      else if cp < 0x800 then [0xC0 + cp div 0x40, 0x80 + cp mod 0x40]
      else if cp < 0x10000 then
        [0xE0 + cp div 0x1000, 0x80 + cp div 0x40 mod 0x40, 0x80 + cp mod 0x40]
      else
        [0xF0 + cp div 0x40000, 0x80 + cp div 0x1000 mod 0x40,
         0x80 + cp div 0x40 mod 0x40, 0x80 + cp mod 0x40])"

definition hexDigit :: "nat \<Rightarrow> 16 word" where
  "hexDigit d = (if d < 10 then of_nat (0x30 + d) else of_nat (0x41 + (d - 10)))"

definition percentEscape :: "nat \<Rightarrow> jsstring" where
  "percentEscape octet = [0x25, hexDigit (octet div 16), hexDigit (octet mod 16)]"

definition escapeCodePoint :: "nat \<Rightarrow> jsstring" where
  "escapeCodePoint cp = concat (map percentEscape (utf8 cp))"

fun encodeURIComponent :: "jsstring \<Rightarrow> js_error + jsstring" where
  "encodeURIComponent [] = Inr []"
| "encodeURIComponent (c # cs) =
     (if uriUnescaped c then
        (case encodeURIComponent cs of Inl e \<Rightarrow> Inl e | Inr r \<Rightarrow> Inr (c # r))
      else if isTrailSurrogate c then Inl (JsError URIError_message)
      else if isLeadSurrogate c then
        (case cs of
           [] \<Rightarrow> Inl (JsError URIError_message)
         | d # ds \<Rightarrow>
             if isTrailSurrogate d then
               (case encodeURIComponent ds of
                  Inl e \<Rightarrow> Inl e
                | Inr r \<Rightarrow>
                    Inr (escapeCodePoint
                      (0x10000 + (unat c - 0xD800) * 0x400 + (unat d - 0xDC00)) @ r))
             else Inl (JsError URIError_message))
      else
        (case encodeURIComponent cs of
           Inl e \<Rightarrow> Inl e
         | Inr r \<Rightarrow> Inr (escapeCodePoint (unat c) @ r)))"

definition buildProxyUrl :: "jsstring \<Rightarrow> js_error + jsstring" where
  "buildProxyUrl value =
     (let stripped = (case match_scheme value of None \<Rightarrow> value | Some rest \<Rightarrow> rest)
      in case encodeURIComponent stripped of
           Inl e \<Rightarrow> Inl e
         | Inr encoded \<Rightarrow> Inr (str ''https://images.weserv.nl/?url='' @ encoded))"

text \<open>The display normalizer: the \<open>useMemo\<close> of the editor, as a function of its two inputs.\<close>

definition displayCardImage :: "jsstring \<Rightarrow> bool \<Rightarrow> js_error + jsstring" where
  "displayCardImage cardImage useProxy =
     (let trimmed = trim cardImage in
      if trimmed = [] then Inr trimmed
      else if \<not> useProxy \<or> isDataUrl trimmed \<or> isProxyUrl trimmed then Inr trimmed
      else if isRemoteUrl trimmed then buildProxyUrl trimmed
      else Inr trimmed)"

section \<open>The browser\<close>

text \<open>
  What a run of the export observes of its environment: the outcome of every call that
  leaves the program. A promise that rejects and a call that throws are \<open>Inl\<close>.
\<close>

record blob =
  blob_type :: jsstring
  blob_bytes :: "8 word list"

record response =
  ok :: bool
  blob :: "js_error + blob"

record canvas =
  hasToBlob :: bool
  toBlob :: "jsstring \<Rightarrow> js_error + blob option"
  toDataURL :: "jsstring \<Rightarrow> js_error + jsstring"

record img =
  complete :: bool
  naturalWidth :: nat

datatype img_event = LoadEvent | ErrorEvent

text \<open>
  \<open>previewRef\<close>: whether the composition root is attached. \<open>querySelectorAll_img\<close>: the image
  elements under the root when the readiness wait starts; \<open>imageEvent k\<close>: the event the
  \<open>k\<close>-th of them fires while the wait is pending, if it fires one. The capture libraries
  (\<open>toPng\<close>, \<open>toJpeg\<close>, \<open>html2canvas\<close>) and \<open>fetch\<close> are taken to settle; so are
  \<open>document.fonts.ready\<close> and the animation frame, which cannot reject.
\<close>

record browser =
  previewRef :: bool
  fetch :: "jsstring \<Rightarrow> js_error + response"
  readAsDataURL :: "blob \<Rightarrow> js_error + jsstring"
  querySelectorAll_img :: "img list"
  imageEvent :: "nat \<Rightarrow> img_event option"
  toPng :: "js_error + jsstring"
  toJpeg :: "js_error + jsstring"
  html2canvas :: "js_error + canvas"

section \<open>Waiting for the images\<close>

text \<open>
  For each image \<open>waitForImages\<close> makes a promise: already fulfilled when the image is complete
  with a natural width that is not zero, pending with a listener for \<open>load\<close> and one for
  \<open>error\<close> otherwise. The listener \<open>done\<close> removes both and resolves. \<open>Promise.all\<close> is
  fulfilled when every promise is; a root without images returns before it.
\<close>

datatype promise_state = Pending | Fulfilled | Rejected

record img_promise =
  promise :: promise_state
  onLoad :: bool
  onError :: bool

definition done_listener :: "img_promise \<Rightarrow> img_promise" where
  "done_listener p =
     p\<lparr>onLoad := False, onError := False,
       promise := (if promise p = Pending then Fulfilled else promise p)\<rparr>"

definition imagePromise :: "img \<Rightarrow> img_promise" where
  "imagePromise i =
     (if complete i \<and> naturalWidth i \<noteq> 0
      then \<lparr>promise = Fulfilled, onLoad = False, onError = False\<rparr>
      else \<lparr>promise = Pending, onLoad = True, onError = True\<rparr>)"

definition dispatchEvent :: "img_event \<Rightarrow> img_promise \<Rightarrow> img_promise" where
  "dispatchEvent ev p =
     (if (case ev of LoadEvent \<Rightarrow> onLoad p | ErrorEvent \<Rightarrow> onError p) then done_listener p else p)"

datatype waiter = Returned | PromiseAll "img_promise list"

definition waitForImages :: "img list \<Rightarrow> waiter" where
  "waitForImages images =
     (if length images = 0 then Returned else PromiseAll (map imagePromise images))"

fun deliver :: "(nat \<Rightarrow> img_event option) \<Rightarrow> waiter \<Rightarrow> waiter" where
  "deliver evs Returned = Returned"
| "deliver evs (PromiseAll ps) =
     PromiseAll (map (\<lambda>(k, p). case evs k of None \<Rightarrow> p | Some ev \<Rightarrow> dispatchEvent ev p)
       (enumerate 0 ps))"

fun fulfilled :: "waiter \<Rightarrow> bool" where
  "fulfilled Returned = True"
| "fulfilled (PromiseAll ps) = list_all (\<lambda>p. promise p = Fulfilled) ps"

definition imagesSettle :: "browser \<Rightarrow> bool" where
  "imagesSettle env = fulfilled (deliver (imageEvent env) (waitForImages (querySelectorAll_img env)))"

section \<open>Inlining the image for the capture\<close>

text \<open>
  The loop over the candidates: a fetch that throws, a response that is not ok, and a body
  that cannot be read or converted all continue with the next candidate. \<open>None\<close>: the loop
  ended without returning.
\<close>

definition blobToDataUrl :: "browser \<Rightarrow> blob \<Rightarrow> js_error + jsstring" where
  "blobToDataUrl env b = readAsDataURL env b"

fun tryCandidates :: "browser \<Rightarrow> jsstring list \<Rightarrow> jsstring option" where
  "tryCandidates env [] = None"
| "tryCandidates env (candidate # rest) =
     (case fetch env candidate of
        Inl error \<Rightarrow> tryCandidates env rest
      | Inr response \<Rightarrow>
          if \<not> ok response then tryCandidates env rest
          else
            (case blob response of
               Inl error \<Rightarrow> tryCandidates env rest
             | Inr b \<Rightarrow>
                 (case blobToDataUrl env b of
                    Inl error \<Rightarrow> tryCandidates env rest
                  | Inr dataUrl \<Rightarrow> Some dataUrl)))"

definition candidateUrls :: "jsstring \<Rightarrow> bool \<Rightarrow> js_error + jsstring list" where
  "candidateUrls trimmed proxyEnabled =
     (if proxyEnabled then
        (case buildProxyUrl trimmed of Inl e \<Rightarrow> Inl e | Inr proxied \<Rightarrow> Inr [proxied, trimmed])
      else Inr [trimmed])"

definition prepareImageForCapture :: "browser \<Rightarrow> jsstring \<Rightarrow> bool \<Rightarrow> js_error + jsstring" where
  "prepareImageForCapture env value proxyEnabled =
     (let trimmed = trim value in
      if trimmed = [] \<or> isDataUrl trimmed \<or> prefix (str ''blob:'') trimmed then Inr trimmed
      else if \<not> isRemoteUrl trimmed then Inr trimmed
      else
        (case candidateUrls trimmed proxyEnabled of
           Inl e \<Rightarrow> Inl e
         | Inr candidates \<Rightarrow>
             (case tryCandidates env candidates of
                Some dataUrl \<Rightarrow> Inr dataUrl
              | None \<Rightarrow> Inr trimmed)))"

section \<open>The two capture strategies\<close>

definition exportWithHtmlToImage :: "browser \<Rightarrow> ExportFormat \<Rightarrow> js_error + jsstring" where
  "exportWithHtmlToImage env format = (if format = Jpeg then toJpeg env else toPng env)"

definition exportWithHtml2Canvas :: "browser \<Rightarrow> ExportFormat \<Rightarrow> js_error + jsstring" where
  "exportWithHtml2Canvas env format =
     (case html2canvas env of
        Inl e \<Rightarrow> Inl e
      | Inr cv \<Rightarrow>
          (let mimeType = (if format = Jpeg then str ''image/jpeg'' else str ''image/png'') in
           if hasToBlob cv then
             (case toBlob cv mimeType of
                Inl e \<Rightarrow> Inl e
              | Inr None \<Rightarrow> toDataURL cv mimeType
              | Inr (Some b) \<Rightarrow> blobToDataUrl env b)
           else toDataURL cv mimeType))"

section \<open>The editor and the export\<close>

text \<open>
  The state variables of the component that the export reads or writes. A render of the
  component reads their values, and the handlers it creates close over them: a call of
  \<open>downloadThumbnail\<close> sees \<open>isDownloading\<close>, \<open>cardImage\<close>, \<open>useProxy\<close>, \<open>trend\<close>, \<open>exportFormat\<close>
  and \<open>template\<close> as they were in the render that created the handler, at its guard and
  after every \<open>await\<close>, whatever has been set since.
\<close>

record hooks =
  trend :: TrendDirection
  template :: TemplateVariant
  cardImage :: jsstring
  useProxy :: bool
  exportFormat :: ExportFormat
  isDownloading :: bool

text \<open>
  \<open>downloadThumbnail\<close> is an async function. Every call that passes the guard has a frame:
  the render it closes over, its locals \<open>originalImage\<close> and \<open>shouldRestore\<close>, and the place
  where it is suspended.
\<close>

datatype pc = AwaitPrepare | AwaitCapture | Finished

record task =
  closure :: hooks
  originalImage :: jsstring
  shouldRestore :: bool
  pc :: pc

datatype console_entry = Warn js_error | ConsoleError js_error

text \<open>
  The editor. \<open>current\<close> holds the state variables as the setters have left them, which are
  the values of the next render; \<open>rendered\<close> holds the values of the last committed render,
  which the handlers on the page close over. \<open>tasks\<close> holds the frames. The rest is a log of
  what the calls do to the outside: the calls of \<open>setCardImage\<close>, the downloads (data URL
  and filename), the alerts and the console.
\<close>

record editor =
  current :: hooks
  rendered :: hooks
  tasks :: "task list"
  setCardImage_calls :: "jsstring list"
  downloads :: "(jsstring \<times> jsstring) list"
  alerts :: "jsstring list"
  console :: "console_entry list"

definition setCardImage :: "jsstring \<Rightarrow> editor \<Rightarrow> editor" where
  "setCardImage v st =
     st\<lparr>current := (current st)\<lparr>cardImage := v\<rparr>,
        setCardImage_calls := setCardImage_calls st @ [v]\<rparr>"

definition setIsDownloading :: "bool \<Rightarrow> editor \<Rightarrow> editor" where
  "setIsDownloading v st = st\<lparr>current := (current st)\<lparr>isDownloading := v\<rparr>\<rparr>"

text \<open>React renders the component again and commits: the handlers are new closures.\<close>

definition rerender :: "editor \<Rightarrow> editor" where
  "rerender st = st\<lparr>rendered := current st\<rparr>"

definition downloadDataUrl :: "jsstring \<Rightarrow> jsstring \<Rightarrow> editor \<Rightarrow> editor" where
  "downloadDataUrl dataUrl filename st = st\<lparr>downloads := downloads st @ [(dataUrl, filename)]\<rparr>"

definition error_message :: "js_error \<Rightarrow> jsstring" where
  "error_message error =
     (case error of
        JsError m \<Rightarrow> m
      | ThrownString s \<Rightarrow> str ''Unknown error''
      | ThrownValue \<Rightarrow> str ''Unknown error'')"

definition alert_text :: "jsstring \<Rightarrow> jsstring" where
  "alert_text message =
     str ''Download failed. Enable the image proxy or upload the image instead of using a URL. ('' @
     message @ str '')''"

definition catch_block :: "js_error \<Rightarrow> editor \<Rightarrow> editor" where
  "catch_block error st =
     st\<lparr>console := console st @ [ConsoleError error],
        alerts := alerts st @ [alert_text (error_message error)]\<rparr>"

definition finally_block :: "nat \<Rightarrow> task \<Rightarrow> editor \<Rightarrow> editor" where
  "finally_block k t st =
     (let st1 = (if shouldRestore t then setCardImage (originalImage t) st else st);
          st2 = setIsDownloading False st1
      in st2\<lparr>tasks := (tasks st2)[k := t\<lparr>pc := Finished\<rparr>]\<rparr>)"

text \<open>
  A call of the handler of the last committed render, up to its first \<open>await\<close>: the guard
  reads the root, which is a ref, and \<open>isDownloading\<close> of the closure. The button is
  disabled in a render whose flag is set, so that a click on it calls nothing: the guard
  returns in the same renders.
\<close>

definition request :: "browser \<Rightarrow> editor \<Rightarrow> editor" where
  "request env st =
     (if \<not> previewRef env \<or> isDownloading (rendered st) then st
      else (let st1 = setIsDownloading True st
            in st1\<lparr>tasks := tasks st1 @
                 [\<lparr>closure = rendered st, originalImage = cardImage (rendered st),
                   shouldRestore = False, pc = AwaitPrepare\<rparr>]\<rparr>))"

text \<open>
  The frame \<open>k\<close> resumes when the inlining has settled: the catch and finally blocks when it
  threw, the swap when it returned another value than the closure's \<open>cardImage\<close>.
\<close>

definition resume_prepare :: "browser \<Rightarrow> nat \<Rightarrow> task \<Rightarrow> editor \<Rightarrow> editor" where
  "resume_prepare env k t st =
     (case prepareImageForCapture env (cardImage (closure t)) (useProxy (closure t)) of
        Inl error \<Rightarrow> finally_block k t (catch_block error st)
      | Inr preparedImage \<Rightarrow>
          if preparedImage \<noteq> [] \<and> preparedImage \<noteq> cardImage (closure t) then
            (let st1 = setCardImage preparedImage st
             in st1\<lparr>tasks := (tasks st1)[k := t\<lparr>shouldRestore := True, pc := AwaitCapture\<rparr>]\<rparr>)
          else st\<lparr>tasks := (tasks st)[k := t\<lparr>pc := AwaitCapture\<rparr>]\<rparr>)"

text \<open>
  The frame \<open>k\<close> resumes when the images are ready, and stays as it is while they are not:
  the primary strategy, the fallback when the primary threw, the catch block when the
  fallback threw too, and the finally block in every case.
\<close>

definition resume_capture :: "browser \<Rightarrow> nat \<Rightarrow> task \<Rightarrow> editor \<Rightarrow> editor" where
  "resume_capture env k t st =
     (if previewRef env \<and> \<not> imagesSettle env then st
      else
        (let filename =
               formatFilename (trend (closure t)) (exportFormat (closure t)) (template (closure t))
         in
         case exportWithHtmlToImage env (exportFormat (closure t)) of
           Inr dataUrl \<Rightarrow> finally_block k t (downloadDataUrl dataUrl filename st)
         | Inl error \<Rightarrow>
             (let st1 = st\<lparr>console := console st @ [Warn error]\<rparr> in
              case exportWithHtml2Canvas env (exportFormat (closure t)) of
                Inr fallbackUrl \<Rightarrow> finally_block k t (downloadDataUrl fallbackUrl filename st1)
              | Inl error2 \<Rightarrow> finally_block k t (catch_block error2 st1))))"

definition resume :: "browser \<Rightarrow> nat \<Rightarrow> editor \<Rightarrow> editor" where
  "resume env k st =
     (if k < length (tasks st) then
        (case pc (tasks st ! k) of
           AwaitPrepare \<Rightarrow> resume_prepare env k (tasks st ! k) st
         | AwaitCapture \<Rightarrow> resume_capture env k (tasks st ! k) st
         | Finished \<Rightarrow> st)
      else st)"

text \<open>One call of the handler, from the guard as far as it gets.\<close>

definition downloadThumbnail :: "browser \<Rightarrow> editor \<Rightarrow> editor" where
  "downloadThumbnail env st =
     (if \<not> previewRef env \<or> isDownloading (rendered st) then st
      else resume env (length (tasks st)) (resume env (length (tasks st)) (request env st)))"

text \<open>
  What happens to the editor, in any order: a call of the handler on the page, a render,
  the resumption of a suspended frame.
\<close>

datatype event = Request | Render | Resume nat

fun exec :: "browser \<Rightarrow> event list \<Rightarrow> editor \<Rightarrow> editor" where
  "exec env [] st = st"
| "exec env (Request # evs) st = exec env evs (request env st)"
| "exec env (Render # evs) st = exec env evs (rerender st)"
| "exec env (Resume k # evs) st = exec env evs (resume env k st)"

definition in_flight :: "editor \<Rightarrow> task list" where
  "in_flight st = filter (\<lambda>t. pc t \<noteq> Finished) (tasks st)"

section \<open>Notions used in the statements\<close>

text \<open>
  The data URL that one candidate yields: its fetch settles with an ok response whose body
  is read and converted. \<open>None\<close> when any of these fails.
\<close>

definition inlined :: "browser \<Rightarrow> jsstring \<Rightarrow> jsstring option" where
  "inlined env candidate =
     (case fetch env candidate of
        Inl e \<Rightarrow> None
      | Inr r \<Rightarrow>
          if ok r then
            (case blob r of
               Inl e \<Rightarrow> None
             | Inr b \<Rightarrow> (case readAsDataURL env b of Inl e \<Rightarrow> None | Inr d \<Rightarrow> Some d))
          else None)"

text \<open>
  An image that has failed before the wait starts: complete, without a natural width. Its
  \<open>error\<close> event has been dispatched already.
\<close>

definition broken :: "img \<Rightarrow> bool" where
  "broken i = (complete i \<and> naturalWidth i = 0)"

text \<open>
  Single flight: the in-flight flag is set exactly when one call of \<open>downloadThumbnail\<close> is
  suspended, and no call is suspended when it is clear.
\<close>

definition export_inv :: "editor \<Rightarrow> bool" where
  "export_inv st = (length (in_flight st) = (if isDownloading (current st) then 1 else 0))"

text \<open>An order of events in which every call comes right after a render.\<close>

fun rendered_before_call :: "event list \<Rightarrow> bool" where
  "rendered_before_call [] = True"
| "rendered_before_call (Render # Request # evs) = rendered_before_call evs"
| "rendered_before_call (Request # evs) = False"
| "rendered_before_call (ev # evs) = rendered_before_call evs"

section \<open>Example browsers and editors\<close>

text \<open>
  A browser in which the relay answers with a status that is not ok, every other fetch
  succeeds, the only image of the root is loaded and both capture strategies fail; and the
  same browser without network.
\<close>

definition example_browser :: browser where
  "example_browser =
     \<lparr>previewRef = True,
      fetch = (\<lambda>u. if u = str ''https://images.weserv.nl/?url=a.io%2Fi''
                    then Inr \<lparr>ok = False, blob = Inl ThrownValue\<rparr>
                    else Inr \<lparr>ok = True,
                              blob = Inr \<lparr>blob_type = str ''image/png'', blob_bytes = [1, 2]\<rparr>\<rparr>),
      readAsDataURL = (\<lambda>b. Inr (str ''data:image/png;base64,AQI='')),
      querySelectorAll_img = [\<lparr>complete = True, naturalWidth = 400\<rparr>],
      imageEvent = (\<lambda>k. None),
      toPng = Inl (JsError (str ''tainted'')),
      toJpeg = Inl ThrownValue,
      html2canvas = Inl (JsError (str ''tainted''))\<rparr>"

definition offline_browser :: browser where
  "offline_browser = example_browser\<lparr>fetch := (\<lambda>u. Inl (JsError (str ''Failed to fetch'')))\<rparr>"

text \<open>
  Three images: one loaded, one still loading, one broken; and the events that the second
  and the third fire.
\<close>

definition example_images :: "img list" where
  "example_images =
     [\<lparr>complete = True, naturalWidth = 400\<rparr>,
      \<lparr>complete = False, naturalWidth = 0\<rparr>,
      \<lparr>complete = True, naturalWidth = 0\<rparr>]"

definition example_events :: "nat \<Rightarrow> img_event option" where
  "example_events k = (if k = 1 then Some LoadEvent else if k = 2 then Some ErrorEvent else None)"

text \<open>
  The editor as mounted with given values of the state variables, before any export. The
  example editor has a remote image and the proxy enabled. A browser in which the primary
  strategy succeeds, and one in which only the fallback does.
\<close>

definition mounted :: "hooks \<Rightarrow> editor" where
  "mounted h =
     \<lparr>current = h, rendered = h, tasks = [], setCardImage_calls = [], downloads = [],
      alerts = [], console = []\<rparr>"

definition example_hooks :: hooks where
  "example_hooks =
     \<lparr>trend = Up, template = Classic, cardImage = str ''http://a.io/i'', useProxy = True,
      exportFormat = Png, isDownloading = False\<rparr>"

definition example_editor :: editor where
  "example_editor = mounted example_hooks"

definition primary_ok_browser :: browser where
  "primary_ok_browser = example_browser\<lparr>toPng := Inr (str ''data:image/png;base64,AAA='')\<rparr>"

definition fallback_ok_browser :: browser where
  "fallback_ok_browser =
     example_browser
       \<lparr>html2canvas :=
          Inr \<lparr>hasToBlob = True,
               toBlob = (\<lambda>m. Inr (Some \<lparr>blob_type = m, blob_bytes = [1, 2]\<rparr>)),
               toDataURL = (\<lambda>m. Inl ThrownValue)\<rparr>\<rparr>"

text \<open>
  The example editor with the proxy disabled; with the same URL followed by a space; with
  a relay URL that ends in an unpaired surrogate, which the display normalizer leaves as
  it is.
\<close>

definition direct_editor :: editor where
  "direct_editor = mounted (example_hooks\<lparr>useProxy := False\<rparr>)"

definition spaced_editor :: editor where
  "spaced_editor = mounted (example_hooks\<lparr>cardImage := str ''http://a.io/i ''\<rparr>)"

definition surrogate_editor :: editor where
  "surrogate_editor =
     mounted (example_hooks\<lparr>cardImage := str ''https://wsrv.nl/?url='' @ [0xD800]\<rparr>)"

text \<open>
  A browser in which the host of the image cannot be read: every fetch fails, and the only
  image of the root has failed to load before the export starts, so it fires no event any
  more. Both capture strategies fail in it.
\<close>

definition blocked_browser :: browser where
  "blocked_browser =
     offline_browser\<lparr>querySelectorAll_img := [\<lparr>complete = True, naturalWidth = 0\<rparr>]\<rparr>"

section \<open>Facts about strings\<close>

lemma replace_all_percent_filter: "replace_all_percent s = filter (\<lambda>c. c \<noteq> 0x25) s"
  by (induction s) auto

lemma dropWhile_id_hd: "s = [] \<or> \<not> P (hd s) \<Longrightarrow> dropWhile P s = s"
  by (cases s) auto

lemma trim_no_space_ends:
  "trim s = [] \<or> (\<not> isWhiteSpace (hd (trim s)) \<and> \<not> isWhiteSpace (last (trim s)))"
proof -
  let ?a = "dropWhile isWhiteSpace s"
  let ?b = "dropWhile isWhiteSpace (rev ?a)"
  show ?thesis
  proof (cases "?b = []")
    case True
    then show ?thesis by (simp add: trim_def)
  next
    case False
    then have hb: "\<not> isWhiteSpace (hd ?b)"
      by (metis hd_dropWhile)
    have an: "?a \<noteq> []" using False by (metis dropWhile.simps(1) rev_is_Nil_conv)
    then have ha: "\<not> isWhiteSpace (hd ?a)"
      by (metis hd_dropWhile)
    obtain ws where ws: "rev ?a = ws @ ?b"
      by (metis takeWhile_dropWhile_id)
    then have "?a = rev ?b @ rev ws"
      by (metis rev_append rev_rev_ident)
    with False have "hd ?a = hd (rev ?b)"
      by (metis hd_append2 rev_is_Nil_conv)
    with ha hb False show ?thesis
      by (simp add: trim_def hd_rev last_rev)
  qed
qed

lemma trim_fixed:
  assumes "s = [] \<or> (\<not> isWhiteSpace (hd s) \<and> \<not> isWhiteSpace (last s))"
  shows "trim s = s"
proof -
  have a: "dropWhile isWhiteSpace s = s"
    using assms by (intro dropWhile_id_hd) auto
  have b: "dropWhile isWhiteSpace (rev s) = rev s"
    using assms by (intro dropWhile_id_hd) (auto simp: hd_rev)
  show ?thesis
    unfolding trim_def a b by simp
qed

lemma trim_idem: "trim (trim s) = trim s"
  by (rule trim_fixed) (rule trim_no_space_ends)

lemma trim_decomp:
  "\<exists>l r. s = l @ trim s @ r \<and> list_all isWhiteSpace l \<and> list_all isWhiteSpace r"
proof -
  let ?a = "dropWhile isWhiteSpace s"
  have 1: "s = takeWhile isWhiteSpace s @ ?a" by simp
  have 2: "rev ?a = takeWhile isWhiteSpace (rev ?a) @ dropWhile isWhiteSpace (rev ?a)" by simp
  have "?a = rev (dropWhile isWhiteSpace (rev ?a)) @ rev (takeWhile isWhiteSpace (rev ?a))"
    by (metis 2 rev_append rev_rev_ident)
  then have "s = takeWhile isWhiteSpace s @ trim s @ rev (takeWhile isWhiteSpace (rev ?a))"
    unfolding trim_def by (metis 1)
  moreover have "list_all isWhiteSpace (takeWhile isWhiteSpace s)"
    by (simp add: list_all_iff) (meson set_takeWhileD)
  moreover have "list_all isWhiteSpace (rev (takeWhile isWhiteSpace (rev ?a)))"
    by (simp add: list_all_iff) (meson set_takeWhileD)
  ultimately show ?thesis by blast
qed

lemma rev_dropWhile_split:
  "r = rev (dropWhile P (rev r)) @ rev (takeWhile P (rev r))"
  by (metis rev_append rev_rev_ident takeWhile_dropWhile_id)

lemma filter_percent_spec_stripped:
  assumes "0x25 \<notin> set (spec_stripped s)"
  shows "replace_all_percent (replace_leading_sign s) = spec_stripped s"
proof -
  let ?P = "\<lambda>c::16 word. c = 0x25"
  let ?r = "replace_leading_sign s"
  have split: "?r = spec_stripped s @ rev (takeWhile ?P (rev ?r))"
    unfolding spec_stripped_def by (rule rev_dropWhile_split)
  have a: "filter (\<lambda>c. c \<noteq> 0x25) (spec_stripped s) = spec_stripped s"
    using assms by (simp add: filter_id_conv) blast
  have b: "filter (\<lambda>c. c \<noteq> 0x25) (rev (takeWhile ?P (rev ?r))) = []"
    by (simp add: filter_empty_conv) (meson set_takeWhileD)
  have "filter (\<lambda>c. c \<noteq> 0x25) ?r =
        filter (\<lambda>c. c \<noteq> 0x25) (spec_stripped s) @
        filter (\<lambda>c. c \<noteq> 0x25) (rev (takeWhile ?P (rev ?r)))"
    by (metis split filter_append)
  then show ?thesis
    by (simp add: a b replace_all_percent_filter)
qed

lemma legacy_download_filename_values:
  "legacy_download_filename Up = str ''pokemon-thumbnail-up.png'' \<and>
   legacy_download_filename Down = str ''pokemon-thumbnail-down.png''"
  by (simp add: legacy_download_filename_def str_def)

section \<open>Facts about the image reference\<close>

lemmas string_eval = str_def trim_def isWhiteSpace_def isDataUrl_def canonicalize_def
  match_scheme_def isRemoteUrl_def isProxyUrl_def uriUnescaped_def isLeadSurrogate_def
  isTrailSurrogate_def utf8_def hexDigit_def percentEscape_def escapeCodePoint_def
  buildProxyUrl_def displayCardImage_def URIError_message_def

lemma includes_str_append: "includes_str (a @ n @ b) n"
proof (induction a)
  case Nil
  show ?case
  proof (cases "n @ b")
    case Nil
    then show ?thesis by simp
  next
    case (Cons c cs)
    then have "prefix n (c # cs)" by (metis prefixI)
    with Cons show ?thesis by simp
  qed
next
  case (Cons x a)
  then show ?case by simp
qed

lemma includes_str_iff: "includes_str s n \<longleftrightarrow> (\<exists>a b. s = a @ n @ b)"
proof
  assume "includes_str s n"
  then show "\<exists>a b. s = a @ n @ b"
  proof (induction s)
    case Nil
    then show ?case by simp
  next
    case (Cons c cs)
    show ?case
    proof (cases "prefix n (c # cs)")
      case True
      then obtain b where "c # cs = n @ b" by (auto simp: prefix_def)
      then have "c # cs = [] @ n @ b" by simp
      then show ?thesis by blast
    next
      case False
      with Cons.prems have "includes_str cs n" by simp
      with Cons.IH obtain a b where "cs = a @ n @ b" by blast
      then have "c # cs = (c # a) @ n @ b" by simp
      then show ?thesis by blast
    qed
  qed
next
  assume "\<exists>a b. s = a @ n @ b"
  then show "includes_str s n" by (auto simp: includes_str_append)
qed

lemma match_ci_canon:
  "map canonicalize m = map canonicalize p \<Longrightarrow> match_ci p (m @ rest) = Some rest"
proof (induction p arbitrary: m)
  case Nil
  then show ?case by simp
next
  case (Cons a p)
  then obtain c cs where "m = c # cs" by (cases m) auto
  with Cons show ?case by simp
qed

lemma match_ci_Some:
  "match_ci p s = Some rest \<Longrightarrow> \<exists>m. s = m @ rest \<and> map canonicalize m = map canonicalize p"
proof (induction p s rule: match_ci.induct)
  case (1 s)
  then show ?case by simp
next
  case (2 p ps)
  then show ?case by simp
next
  case (3 p ps c cs)
  from "3.prems" have eq: "canonicalize c = canonicalize p" and r: "match_ci ps cs = Some rest"
    by (auto split: if_splits)
  from "3.IH" [OF eq r] obtain m where "cs = m @ rest" "map canonicalize m = map canonicalize ps"
    by blast
  with eq have "c # cs = (c # m) @ rest \<and> map canonicalize (c # m) = map canonicalize (p # ps)"
    by simp
  then show ?case by blast
qed

lemma canon_http: "map canonicalize (str ''http'') = str ''HTTP''"
  and canon_s: "map canonicalize (str ''s'') = str ''S''"
  and canon_sep: "map canonicalize (str ''://'') = str ''://''"
  by (simp_all add: str_def canonicalize_def)

lemma match_scheme_http:
  assumes "map canonicalize sch = str ''HTTP://''"
  shows "match_scheme (sch @ rest) = Some rest"
proof -
  let ?a = "take 4 sch" and ?b = "drop 4 sch"
  have a: "map canonicalize ?a = map canonicalize (str ''http'')"
    unfolding canon_http take_map [symmetric] assms by (simp add: str_def)
  have b: "map canonicalize ?b = map canonicalize (str ''://'')"
    unfolding canon_sep drop_map [symmetric] assms by (simp add: str_def)
  have "sch @ rest = ?a @ (?b @ rest)" by simp
  then have 1: "match_ci (str ''http'') (sch @ rest) = Some (?b @ rest)"
    using match_ci_canon [OF a, of "?b @ rest"] by (simp only:)
  from b obtain c cs where cs: "?b = c # cs" and c: "canonicalize c = 0x3A"
    by (cases ?b) (auto simp: str_def canonicalize_def)
  have 2: "match_ci (str ''s'') (?b @ rest) = None"
    unfolding cs using c by (simp add: str_def canonicalize_def)
  have 3: "match_ci (str ''://'') (?b @ rest) = Some rest"
    by (rule match_ci_canon [OF b])
  show ?thesis
    unfolding match_scheme_def 1 by (simp add: 2 3)
qed

lemma match_scheme_https:
  assumes "map canonicalize sch = str ''HTTPS://''"
  shows "match_scheme (sch @ rest) = Some rest"
proof -
  let ?a = "take 4 sch" and ?s = "take 1 (drop 4 sch)" and ?b = "drop 5 sch"
  have a: "map canonicalize ?a = map canonicalize (str ''http'')"
    unfolding canon_http take_map [symmetric] assms by (simp add: str_def)
  have s: "map canonicalize ?s = map canonicalize (str ''s'')"
    unfolding canon_s take_map [symmetric] drop_map [symmetric] assms by (simp add: str_def)
  have b: "map canonicalize ?b = map canonicalize (str ''://'')"
    unfolding canon_sep drop_map [symmetric] assms by (simp add: str_def)
  have "drop 4 sch = ?s @ drop 1 (drop 4 sch)"
    by (simp only: append_take_drop_id)
  moreover have "drop 1 (drop 4 sch) = ?b" by simp
  ultimately have d: "drop 4 sch = ?s @ ?b" by (simp only:)
  have "sch = ?a @ drop 4 sch" by simp
  with d have "sch @ rest = ?a @ (?s @ ?b @ rest)"
    by (metis append.assoc)
  then have 1: "match_ci (str ''http'') (sch @ rest) = Some (?s @ ?b @ rest)"
    using match_ci_canon [OF a, of "?s @ ?b @ rest"] by (simp only:)
  have 2: "match_ci (str ''s'') (?s @ ?b @ rest) = Some (?b @ rest)"
    by (rule match_ci_canon [OF s])
  have 3: "match_ci (str ''://'') (?b @ rest) = Some rest"
    by (rule match_ci_canon [OF b])
  show ?thesis
    by (simp only: match_scheme_def 1 2 3 option.case)
qed

lemma match_scheme_Some:
  assumes "match_scheme v = Some rest"
  shows "\<exists>sch. v = sch @ rest \<and>
    (map canonicalize sch = str ''HTTP://'' \<or> map canonicalize sch = str ''HTTPS://'')"
proof -
  from assms obtain r where r: "match_ci (str ''http'') v = Some r"
    by (auto simp: match_scheme_def split: option.splits)
  from match_ci_Some [OF r] obtain a where a: "v = a @ r" "map canonicalize a = str ''HTTP''"
    by (auto simp: canon_http)
  have direct: "match_ci (str ''://'') r = Some rest \<Longrightarrow> ?thesis"
  proof -
    assume "match_ci (str ''://'') r = Some rest"
    from match_ci_Some [OF this] obtain b where "r = b @ rest" "map canonicalize b = str ''://''"
      by (auto simp: canon_sep)
    with a have "v = (a @ b) @ rest \<and> map canonicalize (a @ b) = str ''HTTP://''"
      by (simp add: str_def)
    then show ?thesis by blast
  qed
  show ?thesis
  proof (cases "match_ci (str ''s'') r")
    case None
    with assms r have "match_ci (str ''://'') r = Some rest"
      by (simp add: match_scheme_def)
    then show ?thesis by (rule direct)
  next
    case (Some r')
    show ?thesis
    proof (cases "match_ci (str ''://'') r'")
      case None
      with assms r Some have "match_ci (str ''://'') r = Some rest"
        by (simp add: match_scheme_def)
      then show ?thesis by (rule direct)
    next
      case (Some rest')
      with assms r \<open>match_ci (str ''s'') r = Some r'\<close> have eq: "rest' = rest"
        by (simp add: match_scheme_def)
      from match_ci_Some [OF \<open>match_ci (str ''s'') r = Some r'\<close>]
      obtain s where s: "r = s @ r'" "map canonicalize s = str ''S''"
        by (auto simp: canon_s)
      from match_ci_Some [OF Some] eq obtain b where b: "r' = b @ rest" "map canonicalize b = str ''://''"
        by (auto simp: canon_sep)
      from a s b have "v = (a @ s @ b) @ rest \<and> map canonicalize (a @ s @ b) = str ''HTTPS://''"
        by (simp add: str_def)
      then show ?thesis by blast
    qed
  qed
qed

lemma isRemoteUrl_iff:
  "isRemoteUrl v \<longleftrightarrow>
   (\<exists>sch rest. v = sch @ rest \<and>
      (map canonicalize sch = str ''HTTP://'' \<or> map canonicalize sch = str ''HTTPS://''))"
  unfolding isRemoteUrl_def
  using match_scheme_Some match_scheme_http match_scheme_https
  by (metis option.distinct(1) option.exhaust)

lemma hexDigit_no_space: "d < 16 \<Longrightarrow> \<not> isWhiteSpace (hexDigit d)"
proof -
  assume "d < 16"
  then have "d = 0 \<or> d = 1 \<or> d = 2 \<or> d = 3 \<or> d = 4 \<or> d = 5 \<or> d = 6 \<or> d = 7 \<or>
      d = 8 \<or> d = 9 \<or> d = 10 \<or> d = 11 \<or> d = 12 \<or> d = 13 \<or> d = 14 \<or> d = 15"
    by arith
  then show ?thesis
    by (elim disjE) (simp_all add: hexDigit_def isWhiteSpace_def)
qed

lemma uriUnescaped_no_space: "uriUnescaped c \<Longrightarrow> \<not> isWhiteSpace c"
  by (auto simp: uriUnescaped_def isWhiteSpace_def word_le_nat_alt)

lemma utf8_not_Nil: "utf8 cp \<noteq> []"
  by (simp add: utf8_def)

lemma last_escapeCodePoint:
  "escapeCodePoint cp \<noteq> [] \<and> \<not> isWhiteSpace (last (escapeCodePoint cp))"
proof -
  obtain os o' where u: "utf8 cp = os @ [o']"
    using utf8_not_Nil [of cp] by (metis rev_exhaust)
  have "escapeCodePoint cp = concat (map percentEscape os) @ percentEscape o'"
    by (simp add: escapeCodePoint_def u)
  then have "escapeCodePoint cp \<noteq> []" and "last (escapeCodePoint cp) = hexDigit (o' mod 16)"
    by (simp_all add: percentEscape_def)
  then show ?thesis
    by (simp add: hexDigit_no_space)
qed

lemma encodeURIComponent_last:
  "encodeURIComponent s = Inr r \<Longrightarrow> r = [] \<or> \<not> isWhiteSpace (last r)"
proof (induction s arbitrary: r rule: encodeURIComponent.induct)
  case 1
  then show ?case by simp
next
  case (2 c cs)
  show ?case
  proof (cases "uriUnescaped c")
    case True
    with "2.prems" obtain r' where r': "encodeURIComponent cs = Inr r'" "r = c # r'"
      by (auto split: sum.splits)
    from "2.IH"(1) [OF True r'(1)] True r'(2) show ?thesis
      by (auto simp: uriUnescaped_no_space)
  next
    case False
    note nu = this
    show ?thesis
    proof (cases "isTrailSurrogate c")
      case True
      with nu "2.prems" show ?thesis by simp
    next
      case False
      note nt = this
      show ?thesis
      proof (cases "isLeadSurrogate c")
        case True
        with nu nt "2.prems" obtain d ds r' where
          d: "cs = d # ds" "isTrailSurrogate d" "encodeURIComponent ds = Inr r'"
          and r: "r = escapeCodePoint (0x10000 + (unat c - 0xD800) * 0x400 + (unat d - 0xDC00)) @ r'"
          by (auto split: list.splits if_splits sum.splits)
        from "2.IH"(2) [OF nu nt True d(1) d(2) d(3)] have "r' = [] \<or> \<not> isWhiteSpace (last r')" .
        with r last_escapeCodePoint show ?thesis
          by (cases "r' = []") auto
      next
        case False
        with nu nt "2.prems" obtain r' where
          r': "encodeURIComponent cs = Inr r'" and r: "r = escapeCodePoint (unat c) @ r'"
          by (auto split: sum.splits)
        from "2.IH"(3) [OF nu nt False r'] have "r' = [] \<or> \<not> isWhiteSpace (last r')" .
        with r last_escapeCodePoint show ?thesis
          by (cases "r' = []") auto
      qed
    qed
  qed
qed

lemma buildProxyUrl_result:
  assumes "buildProxyUrl v = Inr r"
  shows "isProxyUrl r \<and> trim r = r \<and> r \<noteq> []"
proof -
  from assms obtain enc where r: "r = str ''https://images.weserv.nl/?url='' @ enc"
    and enc: "encodeURIComponent (case match_scheme v of None \<Rightarrow> v | Some rest \<Rightarrow> rest) = Inr enc"
    by (auto simp: buildProxyUrl_def split: sum.splits)
  have "r = str ''https://'' @ str ''images.weserv.nl/?url='' @ enc"
    unfolding r by (simp add: str_def)
  then have p: "isProxyUrl r"
    unfolding isProxyUrl_def by (metis includes_str_append)
  have ne: "r \<noteq> []" unfolding r by (simp add: str_def)
  have h: "\<not> isWhiteSpace (hd r)"
    unfolding r by (simp add: str_def isWhiteSpace_def)
  have l: "\<not> isWhiteSpace (last r)"
  proof (cases "enc = []")
    case True
    then show ?thesis unfolding r by (simp add: str_def isWhiteSpace_def)
  next
    case False
    with encodeURIComponent_last [OF enc] show ?thesis
      unfolding r by simp
  qed
  from h l have "trim r = r" by (intro trim_fixed) simp
  with p ne show ?thesis by simp
qed

lemma displayCardImage_trim: "displayCardImage (trim s) p = displayCardImage s p"
  by (simp add: displayCardImage_def Let_def trim_idem)

section \<open>Facts about the inlining\<close>

lemma inlined_Some_iff:
  "inlined env c = Some d \<longleftrightarrow>
   (\<exists>r b. fetch env c = Inr r \<and> ok r \<and> blob r = Inr b \<and> readAsDataURL env b = Inr d)"
  by (auto simp: inlined_def split: sum.splits if_splits)

lemma tryCandidates_Cons:
  "tryCandidates env (c # cs) =
     (case inlined env c of Some d \<Rightarrow> Some d | None \<Rightarrow> tryCandidates env cs)"
  by (simp add: inlined_def blobToDataUrl_def split: sum.splits)

lemma tryCandidates_first:
  "tryCandidates env cs =
     (case List.map_filter (inlined env) cs of [] \<Rightarrow> None | d # ds \<Rightarrow> Some d)"
proof (induction cs)
  case Nil
  show ?case by simp
next
  case (Cons c cs)
  then show ?case
    by (simp only: tryCandidates_Cons) (simp split: option.splits)
qed

lemma remote_not_data:
  assumes "t = scheme @ rest"
    and "map canonicalize scheme = str ''HTTP://'' \<or> map canonicalize scheme = str ''HTTPS://''"
  shows "t \<noteq> [] \<and> \<not> isDataUrl t \<and> \<not> prefix (str ''blob:'') t \<and> isRemoteUrl t"
proof -
  from assms(2) have m: "match_scheme t = Some rest"
    unfolding assms(1) using match_scheme_http match_scheme_https by blast
  then have r: "isRemoteUrl t" by (simp add: isRemoteUrl_def)
  from assms obtain c cs where t: "t = c # cs" "canonicalize c = 0x48"
    by (cases scheme) (auto simp: str_def)
  then have "c \<noteq> 0x64" "c \<noteq> 0x62" by (auto simp: canonicalize_def)
  with t have "\<not> isDataUrl t" "\<not> prefix (str ''blob:'') t"
    by (auto simp: isDataUrl_def str_def)
  with r t show ?thesis by simp
qed

lemmas browser_eval = example_browser_def inlined_def prepareImageForCapture_def candidateUrls_def
  blobToDataUrl_def

section \<open>Facts about the readiness wait\<close>

lemma imagePromise_ready:
  "complete i \<and> naturalWidth i \<noteq> 0 \<Longrightarrow>
   imagePromise i = \<lparr>promise = Fulfilled, onLoad = False, onError = False\<rparr>"
  by (simp add: imagePromise_def)

lemma imagePromise_pending:
  "\<not> (complete i \<and> naturalWidth i \<noteq> 0) \<Longrightarrow>
   imagePromise i = \<lparr>promise = Pending, onLoad = True, onError = True\<rparr>"
  by (simp add: imagePromise_def)

lemma dispatchEvent_imagePromise:
  "promise (dispatchEvent ev (imagePromise i)) = Fulfilled"
  by (cases ev) (simp_all add: dispatchEvent_def imagePromise_def done_listener_def)

lemma delivered_fulfilled:
  "promise (case e of None \<Rightarrow> imagePromise i | Some ev \<Rightarrow> dispatchEvent ev (imagePromise i)) = Fulfilled
   \<longleftrightarrow> (complete i \<and> naturalWidth i \<noteq> 0) \<or> e \<noteq> None"
proof (cases e)
  case None
  then show ?thesis by (simp add: imagePromise_def)
next
  case (Some ev)
  then show ?thesis by (simp add: dispatchEvent_imagePromise)
qed

lemma waitForImages_settles_iff:
  "fulfilled (deliver evs (waitForImages imgs)) \<longleftrightarrow>
   (\<forall>k<length imgs. (complete (imgs ! k) \<and> naturalWidth (imgs ! k) \<noteq> 0) \<or> evs k \<noteq> None)"
proof (cases "imgs = []")
  case True
  then show ?thesis by (simp add: waitForImages_def)
next
  case False
  then have "fulfilled (deliver evs (waitForImages imgs)) \<longleftrightarrow>
    (\<forall>k<length imgs.
       promise (case evs k of None \<Rightarrow> imagePromise (imgs ! k)
                | Some ev \<Rightarrow> dispatchEvent ev (imagePromise (imgs ! k))) = Fulfilled)"
    by (simp add: waitForImages_def list_all_length nth_enumerate_eq)
  then show ?thesis
    by (simp only: delivered_fulfilled)
qed

section \<open>Facts about a run of the export\<close>

lemmas export_defs = downloadThumbnail_def request_def resume_def resume_prepare_def
  resume_capture_def finally_block_def catch_block_def setCardImage_def setIsDownloading_def
  downloadDataUrl_def

lemma downloadThumbnail_guard:
  "\<not> previewRef env \<or> isDownloading (rendered st) \<Longrightarrow>
   request env st = st \<and> downloadThumbnail env st = st"
  by (auto simp: downloadThumbnail_def request_def)

lemma downloadThumbnail_downloads:
  assumes "previewRef env" and "\<not> isDownloading (rendered st)"
  shows "downloads (downloadThumbnail env st) =
    (case prepareImageForCapture env (cardImage (rendered st)) (useProxy (rendered st)) of
       Inl e \<Rightarrow> downloads st
     | Inr p \<Rightarrow>
         if \<not> imagesSettle env then downloads st
         else
           (case exportWithHtmlToImage env (exportFormat (rendered st)) of
              Inr d \<Rightarrow>
                downloads st @
                  [(d, formatFilename (trend (rendered st)) (exportFormat (rendered st))
                         (template (rendered st)))]
            | Inl e1 \<Rightarrow>
                (case exportWithHtml2Canvas env (exportFormat (rendered st)) of
                   Inr d \<Rightarrow>
                     downloads st @
                       [(d, formatFilename (trend (rendered st)) (exportFormat (rendered st))
                              (template (rendered st)))]
                 | Inl e2 \<Rightarrow> downloads st)))"
  using assms by (simp add: export_defs Let_def split: sum.splits)

lemma downloadThumbnail_alerts:
  assumes "previewRef env" and "\<not> isDownloading (rendered st)"
  shows "alerts (downloadThumbnail env st) =
    (case prepareImageForCapture env (cardImage (rendered st)) (useProxy (rendered st)) of
       Inl e \<Rightarrow> alerts st @ [alert_text (error_message e)]
     | Inr p \<Rightarrow>
         if \<not> imagesSettle env then alerts st
         else
           (case exportWithHtmlToImage env (exportFormat (rendered st)) of
              Inr d \<Rightarrow> alerts st
            | Inl e1 \<Rightarrow>
                (case exportWithHtml2Canvas env (exportFormat (rendered st)) of
                   Inr d \<Rightarrow> alerts st
                 | Inl e2 \<Rightarrow> alerts st @ [alert_text (error_message e2)])))"
  using assms by (simp add: export_defs Let_def split: sum.splits)

lemma downloadThumbnail_isDownloading:
  assumes "previewRef env" and "\<not> isDownloading (rendered st)"
  shows "isDownloading (current (downloadThumbnail env st)) =
    (case prepareImageForCapture env (cardImage (rendered st)) (useProxy (rendered st)) of
       Inl e \<Rightarrow> False
     | Inr p \<Rightarrow> \<not> imagesSettle env)"
  using assms by (simp add: export_defs Let_def split: sum.splits)

lemma downloadThumbnail_cardImage:
  assumes "previewRef env" and "\<not> isDownloading (rendered st)"
  shows "cardImage (current (downloadThumbnail env st)) =
    (case prepareImageForCapture env (cardImage (rendered st)) (useProxy (rendered st)) of
       Inl e \<Rightarrow> cardImage (current st)
     | Inr p \<Rightarrow>
         if p \<noteq> [] \<and> p \<noteq> cardImage (rendered st) then
           (if imagesSettle env then cardImage (rendered st) else p)
         else cardImage (current st))"
  using assms by (simp add: export_defs Let_def split: sum.splits)

lemma downloadThumbnail_setCardImage_calls:
  assumes "previewRef env" and "\<not> isDownloading (rendered st)"
  shows "setCardImage_calls (downloadThumbnail env st) =
    (case prepareImageForCapture env (cardImage (rendered st)) (useProxy (rendered st)) of
       Inl e \<Rightarrow> setCardImage_calls st
     | Inr p \<Rightarrow>
         if p \<noteq> [] \<and> p \<noteq> cardImage (rendered st) then
           (if imagesSettle env then setCardImage_calls st @ [p, cardImage (rendered st)]
            else setCardImage_calls st @ [p])
         else setCardImage_calls st)"
  using assms by (simp add: export_defs Let_def split: sum.splits)

lemma downloadThumbnail_inputs:
  "rendered (downloadThumbnail env st) = rendered st \<and>
   useProxy (current (downloadThumbnail env st)) = useProxy (current st) \<and>
   trend (current (downloadThumbnail env st)) = trend (current st) \<and>
   template (current (downloadThumbnail env st)) = template (current st) \<and>
   exportFormat (current (downloadThumbnail env st)) = exportFormat (current st)"
  by (simp add: export_defs Let_def split: sum.splits pc.splits)

lemma downloadThumbnail_tasks:
  assumes "previewRef env" and "\<not> isDownloading (rendered st)"
  shows "length (tasks (downloadThumbnail env st)) = Suc (length (tasks st)) \<and>
         pc (tasks (downloadThumbnail env st) ! length (tasks st)) =
           (case prepareImageForCapture env (cardImage (rendered st)) (useProxy (rendered st)) of
              Inl e \<Rightarrow> Finished
            | Inr p \<Rightarrow> if imagesSettle env then Finished else AwaitCapture)"
  using assms by (simp add: export_defs Let_def split: sum.splits)

text \<open>
  The wait ends exactly when every image that was not ready fires an event; an image that
  is broken already and fires none keeps it pending.
\<close>

lemma imagesSettle_iff:
  "imagesSettle env \<longleftrightarrow>
   (\<forall>k<length (querySelectorAll_img env).
      (complete (querySelectorAll_img env ! k) \<and> naturalWidth (querySelectorAll_img env ! k) \<noteq> 0) \<or>
      imageEvent env k \<noteq> None)"
  by (simp only: imagesSettle_def waitForImages_settles_iff)

lemma broken_image_stalls:
  assumes "k < length (querySelectorAll_img env)" and "broken (querySelectorAll_img env ! k)"
    and "imageEvent env k = None"
  shows "\<not> imagesSettle env"
  using assms unfolding imagesSettle_iff broken_def by blast

text \<open>
  A run whose readiness wait never ends stays suspended: resuming it changes nothing.
\<close>

lemma downloadThumbnail_stalled:
  assumes "previewRef env" and "\<not> isDownloading (rendered st)"
    and "prepareImageForCapture env (cardImage (rendered st)) (useProxy (rendered st)) = Inr p"
    and "\<not> imagesSettle env"
  shows "in_flight (downloadThumbnail env st) \<noteq> [] \<and>
         resume env (length (tasks st)) (downloadThumbnail env st) = downloadThumbnail env st"
  using assms by (simp add: export_defs in_flight_def Let_def)

section \<open>Facts about calls of the handler in any order\<close>

lemma length_filter_update:
  "k < length xs \<Longrightarrow>
   length (filter P (xs[k := y])) + (if P (xs ! k) then 1 else 0) =
   length (filter P xs) + (if P y then 1 else 0)"
proof (induction xs arbitrary: k)
  case Nil
  then show ?case by simp
next
  case (Cons x xs)
  show ?case
  proof (cases k)
    case 0
    then show ?thesis by simp
  next
    case (Suc j)
    with Cons.prems have "j < length xs" by simp
    from Cons.IH [OF this] Suc show ?thesis by simp
  qed
qed

lemma in_flight_nth:
  "k < length (tasks st) \<Longrightarrow> pc (tasks st ! k) \<noteq> Finished \<Longrightarrow> in_flight st \<noteq> []"
  by (auto simp: in_flight_def filter_empty_conv)

lemma inv_in_flight:
  assumes "export_inv st" and "k < length (tasks st)" and "pc (tasks st ! k) \<noteq> Finished"
  shows "isDownloading (current st) \<and> length (filter (\<lambda>t. pc t \<noteq> Finished) (tasks st)) = 1"
proof -
  from in_flight_nth [OF assms(2,3)] have "length (in_flight st) \<noteq> 0" by simp
  with assms(1) show ?thesis
    by (auto simp: export_inv_def in_flight_def split: if_splits)
qed

lemma inv_finally_block:
  assumes "export_inv st" and "k < length (tasks st)" and "pc (tasks st ! k) \<noteq> Finished"
    and "tasks st' = tasks st"
  shows "export_inv (finally_block k t st')"
proof -
  let ?P = "\<lambda>t. pc t \<noteq> Finished"
  from inv_in_flight [OF assms(1-3)] have one: "length (filter ?P (tasks st)) = 1" by simp
  from length_filter_update [OF assms(2), of ?P "t\<lparr>pc := Finished\<rparr>"] assms(3) one
  have "length (filter ?P ((tasks st)[k := t\<lparr>pc := Finished\<rparr>])) = 0" by simp
  then show ?thesis
    by (simp add: export_inv_def in_flight_def finally_block_def setCardImage_def
        setIsDownloading_def Let_def assms(4))
qed

lemma inv_continue:
  assumes "export_inv st" and "k < length (tasks st)" and "pc (tasks st ! k) \<noteq> Finished"
    and "tasks st' = (tasks st)[k := t]" and "pc t \<noteq> Finished"
    and "isDownloading (current st') = isDownloading (current st)"
  shows "export_inv st'"
proof -
  let ?P = "\<lambda>t. pc t \<noteq> Finished"
  from inv_in_flight [OF assms(1-3)] have one: "length (filter ?P (tasks st)) = 1"
    and d: "isDownloading (current st)" by simp_all
  from length_filter_update [OF assms(2), of ?P t] assms(3,5) one
  have "length (filter ?P ((tasks st)[k := t])) = 1" by simp
  with d show ?thesis
    by (simp add: export_inv_def in_flight_def assms(4,6))
qed

text \<open>A call keeps single flight when the render it comes from is up to date.\<close>

lemma inv_request:
  "export_inv st \<Longrightarrow> isDownloading (rendered st) = isDownloading (current st) \<Longrightarrow>
   export_inv (request env st)"
  by (auto simp: export_inv_def in_flight_def request_def setIsDownloading_def Let_def)

lemma inv_rerender: "export_inv st \<Longrightarrow> export_inv (rerender st)"
  by (simp add: export_inv_def in_flight_def rerender_def)

lemma inv_resume_prepare:
  assumes "export_inv st" and "k < length (tasks st)" and "pc (tasks st ! k) \<noteq> Finished"
  shows "export_inv (resume_prepare env k t st)"
proof (cases "prepareImageForCapture env (cardImage (closure t)) (useProxy (closure t))")
  case (Inl e)
  have "tasks (catch_block e st) = tasks st" by (simp add: catch_block_def)
  from inv_finally_block [OF assms this] Inl show ?thesis
    by (simp add: resume_prepare_def)
next
  case (Inr p)
  show ?thesis
  proof (cases "p \<noteq> [] \<and> p \<noteq> cardImage (closure t)")
    case True
    with Inr show ?thesis
      by (auto simp: resume_prepare_def Let_def setCardImage_def
          intro!: inv_continue [OF assms, where t = "t\<lparr>shouldRestore := True, pc := AwaitCapture\<rparr>"])
  next
    case False
    with Inr show ?thesis
      by (auto simp: resume_prepare_def Let_def
          intro!: inv_continue [OF assms, where t = "t\<lparr>pc := AwaitCapture\<rparr>"])
  qed
qed

lemma inv_resume_capture:
  assumes "export_inv st" and "k < length (tasks st)" and "pc (tasks st ! k) \<noteq> Finished"
  shows "export_inv (resume_capture env k t st)"
proof -
  have a: "\<And>d f. export_inv (finally_block k t (downloadDataUrl d f st))"
    by (rule inv_finally_block [OF assms]) (simp add: downloadDataUrl_def)
  have b: "\<And>d f w. export_inv (finally_block k t (downloadDataUrl d f (st\<lparr>console := w\<rparr>)))"
    by (rule inv_finally_block [OF assms]) (simp add: downloadDataUrl_def)
  have c: "\<And>e w. export_inv (finally_block k t (catch_block e (st\<lparr>console := w\<rparr>)))"
    by (rule inv_finally_block [OF assms]) (simp add: catch_block_def)
  from assms(1) a b c show ?thesis
    by (simp add: resume_capture_def Let_def split: sum.splits)
qed

lemma inv_resume: "export_inv st \<Longrightarrow> export_inv (resume env k st)"
  by (simp add: resume_def inv_resume_prepare inv_resume_capture split: pc.splits)

lemma rerender_up_to_date:
  "isDownloading (rendered (rerender st)) = isDownloading (current (rerender st))"
  by (simp add: rerender_def)

lemma inv_exec:
  "export_inv st \<Longrightarrow> rendered_before_call evs \<Longrightarrow> export_inv (exec env evs st)"
proof (induction evs arbitrary: st rule: rendered_before_call.induct)
  case 1
  then show ?case by simp
next
  case (2 evs)
  from inv_request [OF inv_rerender [OF "2.prems"(1)] rerender_up_to_date]
  have "export_inv (request env (rerender st))" .
  from "2.IH" [OF this] "2.prems"(2) show ?case by simp
next
  case (3 evs)
  then show ?case by simp
qed (simp_all add: inv_rerender inv_resume)

text \<open>
  Single flight, for calls that come from an up-to-date render: at most one call is in
  flight, and a call made while one is in flight changes nothing.
\<close>

lemma single_flight_after_render:
  assumes "export_inv st" and "rendered_before_call evs"
  shows "length (in_flight (exec env evs st)) \<le> 1 \<and>
         (in_flight (exec env evs st) \<noteq> [] \<longrightarrow>
            exec env (evs @ [Render, Request]) st = exec env (evs @ [Render]) st)"
proof -
  let ?s = "exec env evs st"
  have ex: "exec env (a @ b) s = exec env b (exec env a s)" for a b s
  proof (induction a arbitrary: s)
    case Nil
    show ?case by simp
  next
    case (Cons ev a)
    then show ?case by (cases ev) simp_all
  qed
  from inv_exec [OF assms] have i: "export_inv ?s" .
  then have 1: "length (in_flight ?s) \<le> 1" by (simp add: export_inv_def)
  have 2: "request env (rerender ?s) = rerender ?s" if "in_flight ?s \<noteq> []"
  proof -
    from i that have "isDownloading (current ?s)"
      by (auto simp: export_inv_def split: if_splits)
    then show ?thesis by (simp add: request_def rerender_def)
  qed
  from 1 2 show ?thesis by (simp add: ex)
qed

lemma exec_as_downloadThumbnail:
  "previewRef env \<Longrightarrow> \<not> isDownloading (rendered st) \<Longrightarrow>
   exec env [Request, Resume (length (tasks st)), Resume (length (tasks st))] st =
   downloadThumbnail env st"
  by (simp add: downloadThumbnail_def)




section \<open>The example runs\<close>

lemma mounted_fields:
  "current (mounted h) = h"
  "rendered (mounted h) = h"
  "tasks (mounted h) = []"
  "setCardImage_calls (mounted h) = []"
  "downloads (mounted h) = []"
  "alerts (mounted h) = []"
  by (simp_all add: mounted_def)

lemma example_hooks_fields:
  "cardImage example_hooks = str ''http://a.io/i''"
  "useProxy example_hooks = True"
  "isDownloading example_hooks = False"
  "exportFormat example_hooks = Png"
  "trend example_hooks = Up"
  "template example_hooks = Classic"
  "formatFilename Up Png Classic = str ''pokemon-thumbnail-classic-up.png''"
  by (simp_all add: example_hooks_def formatFilename_def str_def)

lemmas editor_eval = example_editor_def direct_editor_def spaced_editor_def surrogate_editor_def
  mounted_fields example_hooks_fields

lemma example_browsers_root:
  "previewRef example_browser" "previewRef primary_ok_browser" "previewRef fallback_ok_browser"
  "imagesSettle example_browser" "imagesSettle primary_ok_browser"
  "imagesSettle fallback_ok_browser"
  by (simp_all add: example_browser_def primary_ok_browser_def fallback_ok_browser_def
      imagesSettle_def waitForImages_def imagePromise_def)

lemma example_prepared:
  "prepareImageForCapture example_browser (str ''http://a.io/i'') True =
     Inr (str ''data:image/png;base64,AQI='')"
  "prepareImageForCapture primary_ok_browser (str ''http://a.io/i'') True =
     Inr (str ''data:image/png;base64,AQI='')"
  "prepareImageForCapture fallback_ok_browser (str ''http://a.io/i'') True =
     Inr (str ''data:image/png;base64,AQI='')"
  by (simp_all add: primary_ok_browser_def fallback_ok_browser_def browser_eval string_eval)

lemma example_captures:
  "exportWithHtmlToImage example_browser Png = Inl (JsError (str ''tainted''))"
  "exportWithHtml2Canvas example_browser Png = Inl (JsError (str ''tainted''))"
  "exportWithHtmlToImage primary_ok_browser Png = Inr (str ''data:image/png;base64,AAA='')"
  "exportWithHtmlToImage fallback_ok_browser Png = Inl (JsError (str ''tainted''))"
  "exportWithHtml2Canvas fallback_ok_browser Png = Inr (str ''data:image/png;base64,AQI='')"
  by (simp_all add: primary_ok_browser_def fallback_ok_browser_def example_browser_def
      exportWithHtmlToImage_def exportWithHtml2Canvas_def blobToDataUrl_def)

lemma blocked_browser_facts:
  "previewRef blocked_browser"
  "0 < length (querySelectorAll_img blocked_browser)"
  "broken (querySelectorAll_img blocked_browser ! 0)"
  "imageEvent blocked_browser 0 = None"
  "prepareImageForCapture blocked_browser (str ''http://a.io/i'') False = Inr (str ''http://a.io/i'')"
  "prepareImageForCapture blocked_browser (str ''http://a.io/i '') True = Inr (str ''http://a.io/i'')"
  "exportWithHtmlToImage blocked_browser Png = Inl (JsError (str ''tainted''))"
  "exportWithHtml2Canvas blocked_browser Png = Inl (JsError (str ''tainted''))"
  by (simp_all add: blocked_browser_def offline_browser_def broken_def browser_eval string_eval
      exportWithHtmlToImage_def exportWithHtml2Canvas_def)

text \<open>
  The paths of the export on which the wait ends, in the example browsers: the primary
  strategy succeeds; only the fallback succeeds; both fail. Each run swaps the image,
  restores it and clears the flag.
\<close>

lemma example_runs:
  "downloads (downloadThumbnail primary_ok_browser example_editor) =
     [(str ''data:image/png;base64,AAA='', str ''pokemon-thumbnail-classic-up.png'')]"
  "alerts (downloadThumbnail primary_ok_browser example_editor) = []"
  "downloads (downloadThumbnail fallback_ok_browser example_editor) =
     [(str ''data:image/png;base64,AQI='', str ''pokemon-thumbnail-classic-up.png'')]"
  "alerts (downloadThumbnail fallback_ok_browser example_editor) = []"
  "downloads (downloadThumbnail example_browser example_editor) = []"
  "alerts (downloadThumbnail example_browser example_editor) =
     [str ''Download failed. Enable the image proxy or upload the image instead of using a URL. (tainted)'']"
  "setCardImage_calls (downloadThumbnail example_browser example_editor) =
     [str ''data:image/png;base64,AQI='', str ''http://a.io/i'']"
  "cardImage (current (downloadThumbnail example_browser example_editor)) = str ''http://a.io/i''"
  "\<not> isDownloading (current (downloadThumbnail example_browser example_editor))"
proof -
  have g: "\<not> isDownloading (rendered example_editor)" by (simp add: editor_eval)
  note r = example_browsers_root
  have n: "str ''data:image/png;base64,AQI='' \<noteq> [] \<and>
      str ''data:image/png;base64,AQI='' \<noteq> str ''http://a.io/i''"
    by (simp add: str_def)
  have t: "alert_text (error_message (JsError (str ''tainted''))) =
      str ''Download failed. Enable the image proxy or upload the image instead of using a URL. (tainted)''"
    by (simp add: alert_text_def error_message_def str_def)
  show "downloads (downloadThumbnail primary_ok_browser example_editor) =
     [(str ''data:image/png;base64,AAA='', str ''pokemon-thumbnail-classic-up.png'')]"
    by (simp only: downloadThumbnail_downloads [OF r(2) g]) (simp add: editor_eval example_prepared
        example_captures r)
  show "alerts (downloadThumbnail primary_ok_browser example_editor) = []"
    by (simp only: downloadThumbnail_alerts [OF r(2) g]) (simp add: editor_eval example_prepared
        example_captures r)
  show "downloads (downloadThumbnail fallback_ok_browser example_editor) =
     [(str ''data:image/png;base64,AQI='', str ''pokemon-thumbnail-classic-up.png'')]"
    by (simp only: downloadThumbnail_downloads [OF r(3) g]) (simp add: editor_eval example_prepared
        example_captures r)
  show "alerts (downloadThumbnail fallback_ok_browser example_editor) = []"
    by (simp only: downloadThumbnail_alerts [OF r(3) g]) (simp add: editor_eval example_prepared
        example_captures r)
  show "downloads (downloadThumbnail example_browser example_editor) = []"
    by (simp only: downloadThumbnail_downloads [OF r(1) g]) (simp add: editor_eval example_prepared
        example_captures r)
  show "alerts (downloadThumbnail example_browser example_editor) =
     [str ''Download failed. Enable the image proxy or upload the image instead of using a URL. (tainted)'']"
    by (simp only: downloadThumbnail_alerts [OF r(1) g]) (simp add: editor_eval example_prepared
        example_captures r t)
  show "setCardImage_calls (downloadThumbnail example_browser example_editor) =
     [str ''data:image/png;base64,AQI='', str ''http://a.io/i'']"
    using n
    by (simp only: downloadThumbnail_setCardImage_calls [OF r(1) g]) (simp add: editor_eval example_prepared r)
  show "cardImage (current (downloadThumbnail example_browser example_editor)) = str ''http://a.io/i''"
    by (simp only: downloadThumbnail_cardImage [OF r(1) g]) (simp add: editor_eval example_prepared r)
  show "\<not> isDownloading (current (downloadThumbnail example_browser example_editor))"
    by (simp only: downloadThumbnail_isDownloading [OF r(1) g]) (simp add: editor_eval example_prepared r)
qed

text \<open>
  The path on which the inlining throws: the relay URL with an unpaired surrogate is
  displayed as it is, and its proxied form has no percent-encoding. The catch block raises
  the alert and the finally block clears the flag.
\<close>

lemma surrogate_run:
  "displayCardImage (cardImage (rendered surrogate_editor)) (useProxy (rendered surrogate_editor)) =
     Inr (str ''https://wsrv.nl/?url='' @ [0xD800])"
  "prepareImageForCapture example_browser (cardImage (rendered surrogate_editor))
     (useProxy (rendered surrogate_editor)) = Inl (JsError URIError_message)"
  "downloads (downloadThumbnail example_browser surrogate_editor) = []"
  "alerts (downloadThumbnail example_browser surrogate_editor) =
     [str ''Download failed. Enable the image proxy or upload the image instead of using a URL. (URI malformed)'']"
  "\<not> isDownloading (current (downloadThumbnail example_browser surrogate_editor))"
proof -
  have g: "\<not> isDownloading (rendered surrogate_editor)"
    by (simp add: surrogate_editor_def mounted_fields example_hooks_def)
  show d: "displayCardImage (cardImage (rendered surrogate_editor))
      (useProxy (rendered surrogate_editor)) = Inr (str ''https://wsrv.nl/?url='' @ [0xD800])"
    by (simp add: surrogate_editor_def mounted_fields example_hooks_def string_eval)
  show p: "prepareImageForCapture example_browser (cardImage (rendered surrogate_editor))
     (useProxy (rendered surrogate_editor)) = Inl (JsError URIError_message)"
    by (simp add: surrogate_editor_def mounted_fields example_hooks_def browser_eval string_eval)
  have t: "alert_text (error_message (JsError URIError_message)) =
      str ''Download failed. Enable the image proxy or upload the image instead of using a URL. (URI malformed)''"
    by (simp add: alert_text_def error_message_def URIError_message_def str_def)
  have f: "downloads surrogate_editor = []" "alerts surrogate_editor = []"
    by (simp_all add: surrogate_editor_def mounted_fields)
  show "downloads (downloadThumbnail example_browser surrogate_editor) = []"
    by (simp only: downloadThumbnail_downloads [OF example_browsers_root(1) g] p sum.case f)
  show "alerts (downloadThumbnail example_browser surrogate_editor) =
     [str ''Download failed. Enable the image proxy or upload the image instead of using a URL. (URI malformed)'']"
    by (simp only: downloadThumbnail_alerts [OF example_browsers_root(1) g] p sum.case f t
        append_Nil)
  show "\<not> isDownloading (current (downloadThumbnail example_browser surrogate_editor))"
    by (simp only: downloadThumbnail_isDownloading [OF example_browsers_root(1) g] p sum.case
        not_False_eq_True)
qed

section \<open>Claims\<close>

text \<open>
  C1. The code departs from the claim when an image under the root has failed to load
  before the export starts (it is complete and has no natural width). The readiness wait
  then listens for the \<open>load\<close> and \<open>error\<close> events of that image, which fires none any more,
  and never ends. A call that passed the guard and whose inlining returned stays suspended
  in front of the capture strategies: whatever they would do, there is no download and no
  alert, the in-flight flag stays set, resuming the call changes nothing, and after the
  next render every further call is dropped.
\<close>

theorem C1_stalled_export:
  assumes "previewRef env" and "\<not> isDownloading (rendered st)"
    and "prepareImageForCapture env (cardImage (rendered st)) (useProxy (rendered st)) = Inr p"
    and "k < length (querySelectorAll_img env)" and "broken (querySelectorAll_img env ! k)"
    and "imageEvent env k = None"
  shows "downloads (downloadThumbnail env st) = downloads st \<and>
         alerts (downloadThumbnail env st) = alerts st \<and>
         isDownloading (current (downloadThumbnail env st)) \<and>
         in_flight (downloadThumbnail env st) \<noteq> [] \<and>
         resume env (length (tasks st)) (downloadThumbnail env st) = downloadThumbnail env st \<and>
         request env (rerender (downloadThumbnail env st)) = rerender (downloadThumbnail env st)"
proof -
  from broken_image_stalls [OF assms(4-6)] have w: "\<not> imagesSettle env" .
  have 1: "downloads (downloadThumbnail env st) = downloads st"
    using assms(3) w by (simp add: downloadThumbnail_downloads [OF assms(1,2)])
  have 2: "alerts (downloadThumbnail env st) = alerts st"
    using assms(3) w by (simp add: downloadThumbnail_alerts [OF assms(1,2)])
  have 3: "isDownloading (current (downloadThumbnail env st))"
    using assms(3) w by (simp add: downloadThumbnail_isDownloading [OF assms(1,2)])
  then have 4: "request env (rerender (downloadThumbnail env st)) = rerender (downloadThumbnail env st)"
    by (simp add: request_def rerender_def)
  from 1 2 3 4 downloadThumbnail_stalled [OF assms(1-3) w] show ?thesis by simp
qed

text \<open>
  The theorem at the editor with a remote image and the proxy disabled, in the browser in
  which the host of the image cannot be read. Both capture strategies fail there, and
  yet no alert is raised and the flag stays set.
\<close>

theorem C1_stalled_export_witness:
  "previewRef blocked_browser \<and> \<not> isDownloading (rendered direct_editor) \<and>
   cardImage (rendered direct_editor) = str ''http://a.io/i'' \<and>
   \<not> useProxy (rendered direct_editor) \<and>
   prepareImageForCapture blocked_browser (str ''http://a.io/i'') False = Inr (str ''http://a.io/i'') \<and>
   broken (querySelectorAll_img blocked_browser ! 0) \<and>
   imageEvent blocked_browser 0 = None \<and>
   exportWithHtmlToImage blocked_browser Png = Inl (JsError (str ''tainted'')) \<and>
   exportWithHtml2Canvas blocked_browser Png = Inl (JsError (str ''tainted'')) \<and>
   downloads (downloadThumbnail blocked_browser direct_editor) = [] \<and>
   alerts (downloadThumbnail blocked_browser direct_editor) = [] \<and>
   isDownloading (current (downloadThumbnail blocked_browser direct_editor)) \<and>
   request blocked_browser (rerender (downloadThumbnail blocked_browser direct_editor)) =
     rerender (downloadThumbnail blocked_browser direct_editor)"
proof -
  note b = blocked_browser_facts
  have g: "\<not> isDownloading (rendered direct_editor)"
    and c: "cardImage (rendered direct_editor) = str ''http://a.io/i''"
    and u: "\<not> useProxy (rendered direct_editor)"
    by (simp_all add: direct_editor_def mounted_fields example_hooks_def)
  have p: "prepareImageForCapture blocked_browser (cardImage (rendered direct_editor))
      (useProxy (rendered direct_editor)) = Inr (str ''http://a.io/i'')"
    using b(5) c u by simp
  from C1_stalled_export [OF b(1) g p b(2) b(3) b(4)]
  have "downloads (downloadThumbnail blocked_browser direct_editor) = [] \<and>
     alerts (downloadThumbnail blocked_browser direct_editor) = [] \<and>
     isDownloading (current (downloadThumbnail blocked_browser direct_editor)) \<and>
     request blocked_browser (rerender (downloadThumbnail blocked_browser direct_editor)) =
       rerender (downloadThumbnail blocked_browser direct_editor)"
    by (simp add: direct_editor_def mounted_fields)
  with b g c u show ?thesis by simp
qed

text \<open>
  C2. The code departs from the claim in the same case, an image that has failed to load
  before the export starts. A call that swapped the image (the inlining returned a value
  that is not empty and differs from the closure's \<open>cardImage\<close>) stays suspended in the
  readiness wait in front of the finally block: \<open>setCardImage\<close> has been called once, with
  the swapped value, the raw reference is not restored and the in-flight flag is not
  cleared, and resuming the call changes nothing.
\<close>

theorem C2_swap_not_restored:
  assumes "previewRef env" and "\<not> isDownloading (rendered st)"
    and "prepareImageForCapture env (cardImage (rendered st)) (useProxy (rendered st)) = Inr p"
    and "p \<noteq> [] \<and> p \<noteq> cardImage (rendered st)"
    and "k < length (querySelectorAll_img env)" and "broken (querySelectorAll_img env ! k)"
    and "imageEvent env k = None"
  shows "setCardImage_calls (downloadThumbnail env st) = setCardImage_calls st @ [p] \<and>
         cardImage (current (downloadThumbnail env st)) = p \<and>
         cardImage (current (downloadThumbnail env st)) \<noteq> cardImage (rendered st) \<and>
         isDownloading (current (downloadThumbnail env st)) \<and>
         pc (tasks (downloadThumbnail env st) ! length (tasks st)) = AwaitCapture \<and>
         resume env (length (tasks st)) (downloadThumbnail env st) = downloadThumbnail env st"
proof -
  from broken_image_stalls [OF assms(5-7)] have w: "\<not> imagesSettle env" .
  have 1: "setCardImage_calls (downloadThumbnail env st) = setCardImage_calls st @ [p]"
    using assms(3,4) w by (simp add: downloadThumbnail_setCardImage_calls [OF assms(1,2)])
  have 2: "cardImage (current (downloadThumbnail env st)) = p"
    using assms(3,4) w by (simp add: downloadThumbnail_cardImage [OF assms(1,2)])
  have 3: "isDownloading (current (downloadThumbnail env st))"
    using assms(3) w by (simp add: downloadThumbnail_isDownloading [OF assms(1,2)])
  have 4: "pc (tasks (downloadThumbnail env st) ! length (tasks st)) = AwaitCapture"
    using assms(3) w downloadThumbnail_tasks [OF assms(1,2)] by simp
  from 1 2 3 4 assms(4) downloadThumbnail_stalled [OF assms(1-3) w] show ?thesis by simp
qed

text \<open>
  The theorem at the editor whose image URL is followed by a space, in the browser in which
  the host of the image cannot be read: every fetch fails, the inlining returns the trimmed
  URL, which differs from the raw reference, and the run swaps it in and never restores it.
\<close>

theorem C2_swap_not_restored_witness:
  "previewRef blocked_browser \<and> \<not> isDownloading (rendered spaced_editor) \<and>
   cardImage (rendered spaced_editor) = str ''http://a.io/i '' \<and>
   prepareImageForCapture blocked_browser (str ''http://a.io/i '') True = Inr (str ''http://a.io/i'') \<and>
   str ''http://a.io/i'' \<noteq> [] \<and> str ''http://a.io/i'' \<noteq> str ''http://a.io/i '' \<and>
   broken (querySelectorAll_img blocked_browser ! 0) \<and>
   imageEvent blocked_browser 0 = None \<and>
   setCardImage_calls (downloadThumbnail blocked_browser spaced_editor) = [str ''http://a.io/i''] \<and>
   cardImage (current (downloadThumbnail blocked_browser spaced_editor)) = str ''http://a.io/i'' \<and>
   isDownloading (current (downloadThumbnail blocked_browser spaced_editor)) \<and>
   resume blocked_browser 0 (downloadThumbnail blocked_browser spaced_editor) =
     downloadThumbnail blocked_browser spaced_editor"
proof -
  note b = blocked_browser_facts
  have g: "\<not> isDownloading (rendered spaced_editor)"
    and c: "cardImage (rendered spaced_editor) = str ''http://a.io/i ''"
    and u: "useProxy (rendered spaced_editor)"
    by (simp_all add: spaced_editor_def mounted_fields example_hooks_def)
  have p: "prepareImageForCapture blocked_browser (cardImage (rendered spaced_editor))
      (useProxy (rendered spaced_editor)) = Inr (str ''http://a.io/i'')"
    using b(6) c u by simp
  have n: "str ''http://a.io/i'' \<noteq> [] \<and> str ''http://a.io/i'' \<noteq> str ''http://a.io/i ''"
    by (simp add: str_def)
  then have n': "str ''http://a.io/i'' \<noteq> [] \<and> str ''http://a.io/i'' \<noteq> cardImage (rendered spaced_editor)"
    by (simp add: c)
  from C2_swap_not_restored [OF b(1) g p n' b(2) b(3) b(4)]
  have "setCardImage_calls (downloadThumbnail blocked_browser spaced_editor) = [str ''http://a.io/i''] \<and>
     cardImage (current (downloadThumbnail blocked_browser spaced_editor)) = str ''http://a.io/i'' \<and>
     isDownloading (current (downloadThumbnail blocked_browser spaced_editor)) \<and>
     resume blocked_browser 0 (downloadThumbnail blocked_browser spaced_editor) =
       downloadThumbnail blocked_browser spaced_editor"
    by (simp add: spaced_editor_def mounted_fields)
  with b g c n show ?thesis by simp
qed



text \<open>
  C4, as amended. Let the trimmed reference be a scheme \<open>http://\<close> or \<open>https://\<close>, in any
  letter case, followed by \<open>rest\<close>. With the proxy flag false the inlining tries the trimmed
  reference alone. With the proxy flag true, whenever \<open>rest\<close> has a percent-encoding, it
  tries the proxied form first and then the trimmed reference. It returns the data URL of
  the first candidate that yields one: its fetch is ok and its body is read and converted.
  When no candidate yields one it returns the trimmed reference.
\<close>

theorem C4_prepareImageForCapture:
  assumes "trim v = scheme @ rest"
    and "map canonicalize scheme = str ''HTTP://'' \<or> map canonicalize scheme = str ''HTTPS://''"
  shows "prepareImageForCapture env v False =
           Inr (case inlined env (trim v) of Some d \<Rightarrow> d | None \<Rightarrow> trim v) \<and>
         (encodeURIComponent rest = Inr encoded \<longrightarrow>
            prepareImageForCapture env v True =
              Inr (case inlined env (str ''https://images.weserv.nl/?url='' @ encoded) of
                     Some d \<Rightarrow> d
                   | None \<Rightarrow> (case inlined env (trim v) of Some d \<Rightarrow> d | None \<Rightarrow> trim v))) \<and>
         (inlined env c = Some d \<longleftrightarrow>
            (\<exists>r b. fetch env c = Inr r \<and> ok r \<and> blob r = Inr b \<and> readAsDataURL env b = Inr d))"
proof -
  from remote_not_data [OF assms]
  have g: "trim v \<noteq> []" "\<not> isDataUrl (trim v)" "\<not> prefix (str ''blob:'') (trim v)"
    "isRemoteUrl (trim v)"
    by simp_all
  from assms(2) have m: "match_scheme (trim v) = Some rest"
    unfolding assms(1) using match_scheme_http match_scheme_https by blast
  have f: "prepareImageForCapture env v False =
           Inr (case inlined env (trim v) of Some d \<Rightarrow> d | None \<Rightarrow> trim v)"
    using g
    by (simp add: prepareImageForCapture_def Let_def candidateUrls_def tryCandidates_Cons
        del: tryCandidates.simps(2) split: option.splits)
  have t: "encodeURIComponent rest = Inr encoded \<Longrightarrow>
            prepareImageForCapture env v True =
              Inr (case inlined env (str ''https://images.weserv.nl/?url='' @ encoded) of
                     Some d \<Rightarrow> d
                   | None \<Rightarrow> (case inlined env (trim v) of Some d \<Rightarrow> d | None \<Rightarrow> trim v))"
    using g m
    by (simp add: prepareImageForCapture_def Let_def candidateUrls_def buildProxyUrl_def
        tryCandidates_Cons del: tryCandidates.simps(2) split: option.splits)
  from f t inlined_Some_iff show ?thesis by blast
qed

text \<open>
  The theorem at \<open>http://a.io/i\<close> followed by a space: the relay answers with a status that
  is not ok, and the raw URL is inlined.
\<close>

theorem C4_prepareImageForCapture_witness:
  "trim (str ''http://a.io/i '') = str ''http://'' @ str ''a.io/i'' \<and>
   map canonicalize (str ''http://'') = str ''HTTP://'' \<and>
   encodeURIComponent (str ''a.io/i'') = Inr (str ''a.io%2Fi'') \<and>
   inlined example_browser (str ''https://images.weserv.nl/?url='' @ str ''a.io%2Fi'') = None \<and>
   inlined example_browser (trim (str ''http://a.io/i '')) = Some (str ''data:image/png;base64,AQI='') \<and>
   prepareImageForCapture example_browser (str ''http://a.io/i '') True =
     Inr (str ''data:image/png;base64,AQI='') \<and>
   prepareImageForCapture example_browser (str ''http://a.io/i '') False =
     Inr (str ''data:image/png;base64,AQI='')"
proof -
  let ?v = "str ''http://a.io/i ''"
  have 1: "trim ?v = str ''http://'' @ str ''a.io/i''" by (simp add: string_eval)
  have c: "map canonicalize (str ''http://'') = str ''HTTP://''" by (simp add: string_eval)
  then have 2: "map canonicalize (str ''http://'') = str ''HTTP://'' \<or>
           map canonicalize (str ''http://'') = str ''HTTPS://''" by simp
  have e: "encodeURIComponent (str ''a.io/i'') = Inr (str ''a.io%2Fi'')"
    by (simp add: string_eval)
  have i1: "inlined example_browser (str ''https://images.weserv.nl/?url='' @ str ''a.io%2Fi'') = None"
    by (simp add: browser_eval str_def)
  have i2: "inlined example_browser (trim ?v) = Some (str ''data:image/png;base64,AQI='')"
    by (simp add: browser_eval string_eval)
  from C4_prepareImageForCapture [OF 1 2, of example_browser "str ''a.io%2Fi''"] e i1 i2
  have "prepareImageForCapture example_browser ?v True = Inr (str ''data:image/png;base64,AQI='') \<and>
        prepareImageForCapture example_browser ?v False = Inr (str ''data:image/png;base64,AQI='')"
    by simp
  with 1 c e i1 i2 show ?thesis by blast
qed

text \<open>
  C4 as stated fails at a remote URL followed by a space, without network: what is returned
  is the trimmed reference, not the original one.
\<close>

theorem C4_trailing_space_counterexample:
  "str ''http://a.io/i '' \<noteq> [] \<and>
   isRemoteUrl (str ''http://a.io/i '') \<and>
   \<not> isDataUrl (str ''http://a.io/i '') \<and>
   prepareImageForCapture offline_browser (str ''http://a.io/i '') False = Inr (str ''http://a.io/i'') \<and>
   prepareImageForCapture offline_browser (str ''http://a.io/i '') False \<noteq> Inr (str ''http://a.io/i '')"
  by (simp add: offline_browser_def browser_eval string_eval)

text \<open>
  C5, as amended. Let the trimmed reference be a scheme \<open>http://\<close> or \<open>https://\<close>, in any
  letter case, followed by \<open>rest\<close>, and let it contain no relay marker. With the proxy flag
  false the normalizer returns the trimmed reference, which is the reference itself when it
  has no white space around it. With the proxy flag true it returns the relay base
  \<open>https://images.weserv.nl/?url=\<close> followed by the percent-encoding of \<open>rest\<close>, whenever
  \<open>rest\<close> has one.
\<close>

theorem C5_displayCardImage_remote:
  assumes "trim u = scheme @ rest"
    and "map canonicalize scheme = str ''HTTP://'' \<or> map canonicalize scheme = str ''HTTPS://''"
    and "\<not> isProxyUrl (trim u)"
  shows "isRemoteUrl (trim u) \<and>
         displayCardImage u False = Inr (trim u) \<and>
         (trim u = u \<longrightarrow> displayCardImage u False = Inr u) \<and>
         (encodeURIComponent rest = Inr encoded \<longrightarrow>
            displayCardImage u True = Inr (str ''https://images.weserv.nl/?url='' @ encoded))"
proof -
  from assms(2) have m: "match_scheme (trim u) = Some rest"
    unfolding assms(1) using match_scheme_http match_scheme_https by blast
  then have r: "isRemoteUrl (trim u)" by (simp add: isRemoteUrl_def)
  from assms(1,2) have ne: "trim u \<noteq> []" by (auto simp: str_def)
  have d: "\<not> isDataUrl (trim u)"
  proof
    assume "isDataUrl (trim u)"
    then obtain c cs where "trim u = c # cs" "c = 0x64 \<or> c = 0x62"
      by (auto simp: isDataUrl_def str_def prefix_def)
    moreover from assms(1,2) obtain c' cs' where "trim u = c' # cs'" "canonicalize c' = 0x48"
      by (cases scheme) (auto simp: str_def)
    ultimately show False by (auto simp: canonicalize_def)
  qed
  have f: "displayCardImage u False = Inr (trim u)"
    by (simp add: displayCardImage_def Let_def)
  have t: "encodeURIComponent rest = Inr encoded \<Longrightarrow>
      displayCardImage u True = Inr (str ''https://images.weserv.nl/?url='' @ encoded)"
    using ne d r m assms(3) by (simp add: displayCardImage_def Let_def buildProxyUrl_def)
  from r f t show ?thesis by simp
qed

text \<open>
  The theorem at \<open>HTTPS://a.io/b c\<close> with a space in front.
\<close>

theorem C5_displayCardImage_remote_witness:
  "trim (str '' HTTPS://a.io/b c'') = str ''HTTPS://'' @ str ''a.io/b c'' \<and>
   map canonicalize (str ''HTTPS://'') = str ''HTTPS://'' \<and>
   \<not> isProxyUrl (trim (str '' HTTPS://a.io/b c'')) \<and>
   encodeURIComponent (str ''a.io/b c'') = Inr (str ''a.io%2Fb%20c'') \<and>
   displayCardImage (str '' HTTPS://a.io/b c'') False = Inr (str ''HTTPS://a.io/b c'') \<and>
   displayCardImage (str '' HTTPS://a.io/b c'') True =
     Inr (str ''https://images.weserv.nl/?url=a.io%2Fb%20c'')"
proof -
  let ?u = "str '' HTTPS://a.io/b c''"
  have 1: "trim ?u = str ''HTTPS://'' @ str ''a.io/b c''" by (simp add: string_eval)
  have 2: "map canonicalize (str ''HTTPS://'') = str ''HTTP://'' \<or>
           map canonicalize (str ''HTTPS://'') = str ''HTTPS://''"
    by (simp add: string_eval)
  have 3: "\<not> isProxyUrl (trim ?u)" by (simp add: string_eval)
  have e: "encodeURIComponent (str ''a.io/b c'') = Inr (str ''a.io%2Fb%20c'')"
    by (simp add: string_eval)
  have c: "map canonicalize (str ''HTTPS://'') = str ''HTTPS://''" by (simp add: string_eval)
  have s: "str ''https://images.weserv.nl/?url='' @ str ''a.io%2Fb%20c'' =
           str ''https://images.weserv.nl/?url=a.io%2Fb%20c''"
    by (simp add: str_def)
  have "trim ?u = str ''HTTPS://a.io/b c''" by (simp add: string_eval)
  with C5_displayCardImage_remote [OF 1 2 3, of "str ''a.io%2Fb%20c''"] 1 c 3 e s
  show ?thesis by simp
qed

text \<open>
  C5 as stated fails at a remote URL that is already proxied: with the proxy flag true the
  normalizer returns it unchanged, not the relay base followed by its percent-encoding. It
  also fails at a remote URL followed by a space: with the proxy flag false the normalizer
  returns it without the space.
\<close>

theorem C5_proxied_url_counterexample:
  "isRemoteUrl (str ''https://wsrv.nl/?url=a.png'') \<and>
   encodeURIComponent (str ''wsrv.nl/?url=a.png'') = Inr (str ''wsrv.nl%2F%3Furl%3Da.png'') \<and>
   displayCardImage (str ''https://wsrv.nl/?url=a.png'') True = Inr (str ''https://wsrv.nl/?url=a.png'') \<and>
   displayCardImage (str ''https://wsrv.nl/?url=a.png'') True \<noteq>
     Inr (str ''https://images.weserv.nl/?url='' @ str ''wsrv.nl%2F%3Furl%3Da.png'') \<and>
   isRemoteUrl (str ''http://a.io/i '') \<and>
   displayCardImage (str ''http://a.io/i '') False = Inr (str ''http://a.io/i'') \<and>
   displayCardImage (str ''http://a.io/i '') False \<noteq> Inr (str ''http://a.io/i '')"
  by (simp add: string_eval)

text \<open>
  C6, as amended. For both values of the proxy flag, the display normalizer returns the
  trimmed string whenever the trimmed string starts with \<open>data:\<close> or \<open>blob:\<close> or contains a
  relay marker; so it is the identity on such a string without white space around it. What
  \<open>buildProxyUrl\<close> returns is classified as proxied, and normalizing it again with the proxy
  enabled returns it unchanged. Normalizing the normalizer's own output again, with the same
  flag, returns it unchanged.
\<close>

theorem C6_displayCardImage_identity:
  "(isDataUrl (trim s) \<or> isProxyUrl (trim s) \<longrightarrow> displayCardImage s proxy = Inr (trim s)) \<and>
   (trim s = s \<and> (isDataUrl s \<or> isProxyUrl s) \<longrightarrow> displayCardImage s proxy = Inr s) \<and>
   (buildProxyUrl v = Inr r \<longrightarrow> isProxyUrl r \<and> displayCardImage r True = Inr r) \<and>
   (displayCardImage s proxy = Inr r' \<longrightarrow> displayCardImage r' proxy = Inr r')"
proof (intro conjI impI)
  assume "isDataUrl (trim s) \<or> isProxyUrl (trim s)"
  then show "displayCardImage s proxy = Inr (trim s)"
    by (auto simp: displayCardImage_def Let_def)
next
  assume "trim s = s \<and> (isDataUrl s \<or> isProxyUrl s)"
  then show "displayCardImage s proxy = Inr s"
    by (auto simp: displayCardImage_def Let_def)
next
  assume "buildProxyUrl v = Inr r"
  from buildProxyUrl_result [OF this] show "isProxyUrl r" by simp
next
  assume "buildProxyUrl v = Inr r"
  from buildProxyUrl_result [OF this] show "displayCardImage r True = Inr r"
    by (simp add: displayCardImage_def Let_def)
next
  assume a: "displayCardImage s proxy = Inr r'"
  let ?t = "trim s"
  show "displayCardImage r' proxy = Inr r'"
  proof (cases "?t = [] \<or> \<not> proxy \<or> isDataUrl ?t \<or> isProxyUrl ?t \<or> \<not> isRemoteUrl ?t")
    case True
    with a have "r' = ?t" by (auto simp: displayCardImage_def Let_def split: if_splits)
    with a displayCardImage_trim [of s proxy] show ?thesis by simp
  next
    case False
    with a have b: "buildProxyUrl ?t = Inr r'" and u: proxy
      by (auto simp: displayCardImage_def Let_def split: if_splits)
    from buildProxyUrl_result [OF b] u show ?thesis
      by (simp add: displayCardImage_def Let_def)
  qed
qed


text \<open>
  The theorem at an already proxied URL, at a data URL, and at the output for
  \<open>http://a.io/b c\<close>.
\<close>

theorem C6_displayCardImage_identity_witness:
  "isProxyUrl (trim (str ''https://wsrv.nl/?url=a.png'')) \<and>
   trim (str ''https://wsrv.nl/?url=a.png'') = str ''https://wsrv.nl/?url=a.png'' \<and>
   displayCardImage (str ''https://wsrv.nl/?url=a.png'') True = Inr (str ''https://wsrv.nl/?url=a.png'') \<and>
   displayCardImage (str ''data:,a'') False = Inr (str ''data:,a'') \<and>
   buildProxyUrl (str ''http://a.io/b c'') = Inr (str ''https://images.weserv.nl/?url=a.io%2Fb%20c'') \<and>
   displayCardImage (str ''http://a.io/b c'') True = Inr (str ''https://images.weserv.nl/?url=a.io%2Fb%20c'') \<and>
   displayCardImage (str ''https://images.weserv.nl/?url=a.io%2Fb%20c'') True =
     Inr (str ''https://images.weserv.nl/?url=a.io%2Fb%20c'')"
proof -
  let ?p = "str ''https://wsrv.nl/?url=a.png''"
  let ?d = "str ''data:,a''"
  let ?u = "str ''http://a.io/b c''"
  let ?r = "str ''https://images.weserv.nl/?url=a.io%2Fb%20c''"
  have t: "trim ?p = ?p" by (simp add: string_eval)
  have p: "isProxyUrl (trim ?p)" by (simp add: string_eval)
  have td: "trim ?d = ?d \<and> (isDataUrl ?d \<or> isProxyUrl ?d)" by (simp add: string_eval)
  have b: "buildProxyUrl ?u = Inr ?r" by (simp add: string_eval)
  have n: "displayCardImage ?u True = Inr ?r" by (simp add: string_eval)
  from C6_displayCardImage_identity [of ?p True ?u ?r ?r] p t
  have 1: "displayCardImage ?p True = Inr ?p" by simp
  from C6_displayCardImage_identity [of ?d False ?u ?r ?r] td
  have 2: "displayCardImage ?d False = Inr ?d" by blast
  from C6_displayCardImage_identity [of ?u True ?u ?r ?r] b n
  have 3: "displayCardImage ?r True = Inr ?r" by blast
  from p t 1 2 b n 3 show ?thesis by blast
qed

text \<open>
  C6 as stated fails at a string that starts with \<open>data:\<close> and ends with a space: for both
  values of the flag the normalizer returns it without the space.
\<close>

theorem C6_trailing_space_counterexample:
  "isDataUrl (str ''data:,a '') \<and>
   displayCardImage (str ''data:,a '') True = Inr (str ''data:,a'') \<and>
   displayCardImage (str ''data:,a '') False = Inr (str ''data:,a'') \<and>
   displayCardImage (str ''data:,a '') True \<noteq> Inr (str ''data:,a '')"
  by (simp add: string_eval)

text \<open>
  C7. With no image under the root \<open>waitForImages\<close> returns at once. An image that is
  complete with a natural width that is not zero gets a promise that is already fulfilled,
  without a listener. Every other image gets a pending promise that the load event and the
  error event both fulfil; no promise is ever rejected. So the wait is over exactly when
  every image that was not ready has fired one of the two events.
\<close>

theorem C7_waitForImages:
  "waitForImages [] = Returned \<and> fulfilled (waitForImages []) \<and>
   (complete i \<and> naturalWidth i \<noteq> 0 \<longrightarrow>
      imagePromise i = \<lparr>promise = Fulfilled, onLoad = False, onError = False\<rparr>) \<and>
   (\<not> (complete i \<and> naturalWidth i \<noteq> 0) \<longrightarrow>
      imagePromise i = \<lparr>promise = Pending, onLoad = True, onError = True\<rparr> \<and>
      promise (dispatchEvent LoadEvent (imagePromise i)) = Fulfilled \<and>
      promise (dispatchEvent ErrorEvent (imagePromise i)) = Fulfilled) \<and>
   promise (imagePromise i) \<noteq> Rejected \<and>
   promise (dispatchEvent ev (imagePromise i)) \<noteq> Rejected \<and>
   (fulfilled (deliver evs (waitForImages imgs)) \<longleftrightarrow>
      (\<forall>k<length imgs. (complete (imgs ! k) \<and> naturalWidth (imgs ! k) \<noteq> 0) \<or> evs k \<noteq> None))"
proof -
  have 1: "waitForImages [] = Returned \<and> fulfilled (waitForImages [])"
    by (simp add: waitForImages_def)
  have 2: "promise (imagePromise i) \<noteq> Rejected"
    by (simp add: imagePromise_def)
  have 3: "promise (dispatchEvent ev (imagePromise i)) \<noteq> Rejected"
    by (simp add: dispatchEvent_imagePromise)
  from 1 2 3 imagePromise_ready [of i] imagePromise_pending [of i]
    dispatchEvent_imagePromise [of _ i] waitForImages_settles_iff [of evs imgs]
  show ?thesis by blast
qed

text \<open>
  The theorem at the three images: the loaded one is not waited for, the broken one is
  fulfilled by its error event, and the wait ends with the events and not without them.
\<close>

theorem C7_waitForImages_witness:
  "complete (example_images ! 0) \<and> naturalWidth (example_images ! 0) \<noteq> 0 \<and>
   imagePromise (example_images ! 0) = \<lparr>promise = Fulfilled, onLoad = False, onError = False\<rparr> \<and>
   \<not> (complete (example_images ! 2) \<and> naturalWidth (example_images ! 2) \<noteq> 0) \<and>
   imagePromise (example_images ! 2) = \<lparr>promise = Pending, onLoad = True, onError = True\<rparr> \<and>
   promise (dispatchEvent ErrorEvent (imagePromise (example_images ! 2))) = Fulfilled \<and>
   fulfilled (deliver example_events (waitForImages example_images)) \<and>
   \<not> fulfilled (deliver (\<lambda>k. None) (waitForImages example_images))"
proof -
  have a: "complete (example_images ! 0) \<and> naturalWidth (example_images ! 0) \<noteq> 0"
    by (simp add: example_images_def)
  have b: "\<not> (complete (example_images ! 2) \<and> naturalWidth (example_images ! 2) \<noteq> 0)"
    by (simp add: example_images_def)
  have c: "\<forall>k<length example_images.
      (complete (example_images ! k) \<and> naturalWidth (example_images ! k) \<noteq> 0) \<or>
      example_events k \<noteq> None"
    by (simp add: example_images_def example_events_def nth_Cons' less_Suc_eq)
  have d: "\<not> (\<forall>k<length example_images.
      (complete (example_images ! k) \<and> naturalWidth (example_images ! k) \<noteq> 0) \<or>
      (\<lambda>k. None :: img_event option) k \<noteq> None)"
    by (simp add: example_images_def) (rule exI [of _ 1], simp)
  from C7_waitForImages [of "example_images ! 0" ErrorEvent example_events example_images] a c
  have 1: "imagePromise (example_images ! 0) = \<lparr>promise = Fulfilled, onLoad = False, onError = False\<rparr>"
    and 2: "fulfilled (deliver example_events (waitForImages example_images))"
    by blast+
  from C7_waitForImages [of "example_images ! 2" ErrorEvent "\<lambda>k. None" example_images] b d
  have 3: "imagePromise (example_images ! 2) = \<lparr>promise = Pending, onLoad = True, onError = True\<rparr>"
    and 4: "promise (dispatchEvent ErrorEvent (imagePromise (example_images ! 2))) = Fulfilled"
    and 5: "\<not> fulfilled (deliver (\<lambda>k. None) (waitForImages example_images))"
    by blast+
  from a b 1 2 3 4 5 show ?thesis by blast
qed

text \<open>
  C8, as amended. For every input and trend, both templates display the sign of the trend,
  then the input trimmed of white space, without one leading sign and without any of its
  percent characters, or \<open>0\<close> when nothing is left, then a percent character. On an input
  without white space around it, whose percent characters are all at its end and which is
  not empty once stripped, this is the wording of the specification. \<open>375\<close> with trend up
  displays \<open>+375%\<close>, and \<open>-12%\<close> with trend down displays \<open>-12%\<close>.
\<close>

theorem C8_changeText:
  "YoutubeThumbnail_changeText (Some s) (Some t) =
     (case t of Up \<Rightarrow> str ''+'' | Down \<Rightarrow> str ''-'') @
     (if filter (\<lambda>c. c \<noteq> 0x25) (replace_leading_sign (trim s)) = [] then str ''0''
      else filter (\<lambda>c. c \<noteq> 0x25) (replace_leading_sign (trim s))) @ str ''%'' \<and>
   YoutubeThumbnailImpact_changeText (Some s) (Some t) =
     YoutubeThumbnail_changeText (Some s) (Some t) \<and>
   (trim s = s \<and> 0x25 \<notin> set (spec_stripped s) \<and> spec_stripped s \<noteq> [] \<longrightarrow>
      YoutubeThumbnail_changeText (Some s) (Some t) = spec_changeText s t) \<and>
   YoutubeThumbnail_changeText (Some (str ''375'')) (Some Up) = str ''+375%'' \<and>
   YoutubeThumbnail_changeText (Some (str ''-12%'')) (Some Down) = str ''-12%''"
proof (intro conjI impI)
  show "YoutubeThumbnail_changeText (Some s) (Some t) =
     (case t of Up \<Rightarrow> str ''+'' | Down \<Rightarrow> str ''-'') @
     (if filter (\<lambda>c. c \<noteq> 0x25) (replace_leading_sign (trim s)) = [] then str ''0''
      else filter (\<lambda>c. c \<noteq> 0x25) (replace_leading_sign (trim s))) @ str ''%''"
    by (cases t) (simp_all add: YoutubeThumbnail_changeText_def replace_all_percent_filter Let_def)
  show "YoutubeThumbnailImpact_changeText (Some s) (Some t) =
     YoutubeThumbnail_changeText (Some s) (Some t)"
    by (simp add: YoutubeThumbnailImpact_changeText_def YoutubeThumbnail_changeText_def)
  show "YoutubeThumbnail_changeText (Some (str ''375'')) (Some Up) = str ''+375%''"
    by (simp add: YoutubeThumbnail_changeText_def str_def trim_def isWhiteSpace_def)
  show "YoutubeThumbnail_changeText (Some (str ''-12%'')) (Some Down) = str ''-12%''"
    by (simp add: YoutubeThumbnail_changeText_def str_def trim_def isWhiteSpace_def)
next
  assume h: "trim s = s \<and> 0x25 \<notin> set (spec_stripped s) \<and> spec_stripped s \<noteq> []"
  then have "replace_all_percent (replace_leading_sign (trim s)) = spec_stripped s"
    by (simp add: filter_percent_spec_stripped)
  with h show "YoutubeThumbnail_changeText (Some s) (Some t) = spec_changeText s t"
    by (cases t) (simp_all add: YoutubeThumbnail_changeText_def spec_changeText_def)
qed

text \<open>The theorem at \<open>-12%\<close> and trend down, where the hypotheses of its third part hold.\<close>

theorem C8_changeText_witness:
  "trim (str ''-12%'') = str ''-12%'' \<and>
   0x25 \<notin> set (spec_stripped (str ''-12%'')) \<and>
   spec_stripped (str ''-12%'') \<noteq> [] \<and>
   YoutubeThumbnail_changeText (Some (str ''-12%'')) (Some Down) =
     spec_changeText (str ''-12%'') Down \<and>
   spec_changeText (str ''-12%'') Down = str ''-12%''"
proof -
  have h: "trim (str ''-12%'') = str ''-12%'' \<and>
      0x25 \<notin> set (spec_stripped (str ''-12%'')) \<and> spec_stripped (str ''-12%'') \<noteq> []"
    by (simp add: str_def trim_def isWhiteSpace_def spec_stripped_def)
  have v: "spec_changeText (str ''-12%'') Down = str ''-12%''"
    by (simp add: str_def spec_changeText_def spec_stripped_def)
  from C8_changeText [of "str ''-12%''" Down] h v show ?thesis
    by blast
qed

text \<open>
  C8 as stated fails at the empty input: stripping leaves nothing, the specification's
  wording gives \<open>+%\<close>, and the templates display \<open>+0%\<close>. It also fails at \<open>5%0\<close>, whose
  percent character is not a suffix and is removed all the same, and at \<open>5\<close> after a space,
  which is trimmed.
\<close>

theorem C8_empty_input_counterexample:
  "YoutubeThumbnail_changeText (Some (str [])) (Some Up) = str ''+0%'' \<and>
   spec_changeText (str []) Up = str ''+%'' \<and>
   YoutubeThumbnail_changeText (Some (str [])) (Some Up) \<noteq> spec_changeText (str []) Up \<and>
   YoutubeThumbnail_changeText (Some (str ''5%0'')) (Some Up) = str ''+50%'' \<and>
   spec_changeText (str ''5%0'') Up = str ''+5%0%'' \<and>
   YoutubeThumbnailImpact_changeText (Some (str '' 5'')) (Some Down) = str ''-5%'' \<and>
   spec_changeText (str '' 5'') Down = str ''- 5%''"
  by (simp add: YoutubeThumbnail_changeText_def YoutubeThumbnailImpact_changeText_def
      spec_changeText_def spec_stripped_def str_def trim_def isWhiteSpace_def)

text \<open>
  C9. For every template, trend and format the download filename is
  \<open>pokemon-thumbnail-<template>-<trend>.<ext>\<close>, where the extension is \<open>png\<close> for PNG and
  \<open>jpg\<close> for JPEG: all eight combinations, written out.
\<close>

theorem C9_formatFilename:
  "formatFilename Up Png Classic = str ''pokemon-thumbnail-classic-up.png'' \<and>
   formatFilename Down Png Classic = str ''pokemon-thumbnail-classic-down.png'' \<and>
   formatFilename Up Jpeg Classic = str ''pokemon-thumbnail-classic-up.jpg'' \<and>
   formatFilename Down Jpeg Classic = str ''pokemon-thumbnail-classic-down.jpg'' \<and>
   formatFilename Up Png Impact = str ''pokemon-thumbnail-impact-up.png'' \<and>
   formatFilename Down Png Impact = str ''pokemon-thumbnail-impact-down.png'' \<and>
   formatFilename Up Jpeg Impact = str ''pokemon-thumbnail-impact-up.jpg'' \<and>
   formatFilename Down Jpeg Impact = str ''pokemon-thumbnail-impact-down.jpg''"
  by (simp add: formatFilename_def str_def)

text \<open>
  C10. When the trimmed input is empty once the leading sign and all percent characters
  are stripped, both templates substitute \<open>0\<close>: the change text is \<open>+0%\<close> for trend up and
  \<open>-0%\<close> for trend down.
\<close>

theorem C10_empty_becomes_zero:
  assumes "replace_all_percent (replace_leading_sign (trim s)) = []"
  shows "YoutubeThumbnail_changeText (Some s) (Some t) =
           (case t of Up \<Rightarrow> str ''+0%'' | Down \<Rightarrow> str ''-0%'') \<and>
         YoutubeThumbnailImpact_changeText (Some s) (Some t) =
           (case t of Up \<Rightarrow> str ''+0%'' | Down \<Rightarrow> str ''-0%'')"
  using assms
  by (cases t)
    (simp_all add: YoutubeThumbnail_changeText_def YoutubeThumbnailImpact_changeText_def str_def)

text \<open>The theorem at the inputs \<open>+%\<close>, \<open>+\<close>, \<open>%\<close> and the empty string.\<close>

theorem C10_empty_becomes_zero_witness:
  "replace_all_percent (replace_leading_sign (trim (str ''+%''))) = [] \<and>
   YoutubeThumbnail_changeText (Some (str ''+%'')) (Some Up) = str ''+0%'' \<and>
   YoutubeThumbnailImpact_changeText (Some (str ''+%'')) (Some Down) = str ''-0%'' \<and>
   YoutubeThumbnail_changeText (Some (str ''+'')) (Some Down) = str ''-0%'' \<and>
   YoutubeThumbnailImpact_changeText (Some (str ''%'')) (Some Up) = str ''+0%'' \<and>
   YoutubeThumbnail_changeText (Some (str [])) (Some Up) = str ''+0%''"
proof -
  have h: "replace_all_percent (replace_leading_sign (trim (str ''+%''))) = []"
    by (simp add: str_def trim_def isWhiteSpace_def)
  have h1: "replace_all_percent (replace_leading_sign (trim (str ''+''))) = []"
    by (simp add: str_def trim_def isWhiteSpace_def)
  have h2: "replace_all_percent (replace_leading_sign (trim (str ''%''))) = []"
    by (simp add: str_def trim_def isWhiteSpace_def)
  have h3: "replace_all_percent (replace_leading_sign (trim (str []))) = []"
    by (simp add: str_def trim_def isWhiteSpace_def)
  from C10_empty_becomes_zero [OF h, of Up] C10_empty_becomes_zero [OF h, of Down]
    C10_empty_becomes_zero [OF h1, of Down] C10_empty_becomes_zero [OF h2, of Up]
    C10_empty_becomes_zero [OF h3, of Up] h
  show ?thesis by simp
qed

end
